theory Spec2Isabelle
  imports Complex_Main
begin

section \<open>Data model\<close>

text \<open>
  The proxy of \<^verbatim>\<open>src/server.js\<close> handles one request at a time and keeps no state
  between requests. The request body is a JavaScript value built by the body parser:
  scalars, arrays and objects. Arrays and objects live in the JavaScript heap and are
  handled by reference, and \<^verbatim>\<open>removeUnsupportedFields\<close> deletes properties in place, so
  the heap is explicit here: a store from addresses to cells.

  \<^item> \<open>json\<close> is a JSON document (what \<^verbatim>\<open>JSON.stringify\<close> writes and \<^verbatim>\<open>JSON.parse\<close> reads),
    an object being the list of its members in the order of enumeration;
  \<^item> \<open>val\<close> is a JavaScript value that a parsed body can hold; \<^verbatim>\<open>undefined\<close> is never
    stored in a body, it only shows up as the result of reading a missing property and
    as a missing body, and is \<open>None\<close> of an option type there;
  \<^item> numbers are rationals: the code copies them and tests them for zero only.
\<close>

datatype json =
    JNull
  | JBool bool
  | JNum rat
  | JStr string
  | JArr "json list"
  | JObj "(string \<times> json) list"

type_synonym addr = nat

datatype val =
    VNull
  | VBool bool
  | VNum rat
  | VStr string
  | VRef addr

datatype cell =
    Arr "val list"
  | Obj "(string \<times> val) list"

record heap =
  cells :: "addr \<Rightarrow> cell"
  next_free :: addr

definition empty_heap :: heap where
  "empty_heap = \<lparr>cells = (\<lambda>_. Obj []), next_free = 0\<rparr>"

definition alloc :: "cell \<Rightarrow> heap \<Rightarrow> val \<times> heap" where
  "alloc c h = (VRef (next_free h), \<lparr>cells = (cells h)(next_free h := c), next_free = Suc (next_free h)\<rparr>)"

datatype error = TypeError | RangeError

text \<open>JavaScript truthiness of a stored value, and of a possibly undefined one.\<close>

fun truthy :: "val \<Rightarrow> bool" where
  "truthy VNull = False"
| "truthy (VBool b) = b"
| "truthy (VNum r) = (r \<noteq> 0)"
| "truthy (VStr s) = (s \<noteq> [])"
| "truthy (VRef a) = True"

fun truthy_opt :: "val option \<Rightarrow> bool" where
  "truthy_opt None = False"
| "truthy_opt (Some v) = truthy v"

section \<open>JSON.parse and JSON.stringify\<close>

text \<open>
  \<^verbatim>\<open>JSON.parse\<close> builds fresh arrays and objects: every array and object of the document
  gets a new cell. (The children are allocated before their parent; which address a cell
  gets is not observable from JavaScript.)
\<close>

fun JSON_parse :: "json \<Rightarrow> heap \<Rightarrow> val \<times> heap"
  and parse_elems :: "json list \<Rightarrow> heap \<Rightarrow> val list \<times> heap"
  and parse_members :: "(string \<times> json) list \<Rightarrow> heap \<Rightarrow> (string \<times> val) list \<times> heap" where
  "JSON_parse JNull h = (VNull, h)"
| "JSON_parse (JBool b) h = (VBool b, h)"
| "JSON_parse (JNum r) h = (VNum r, h)"
| "JSON_parse (JStr s) h = (VStr s, h)"
| "JSON_parse (JArr ts) h = (case parse_elems ts h of (vs, h') \<Rightarrow> alloc (Arr vs) h')"
| "JSON_parse (JObj ms) h = (case parse_members ms h of (props, h') \<Rightarrow> alloc (Obj props) h')"
| "parse_elems [] h = ([], h)"
| "parse_elems (t # ts) h =
     (case JSON_parse t h of (v, h1) \<Rightarrow>
        (case parse_elems ts h1 of (vs, h2) \<Rightarrow> (v # vs, h2)))"
| "parse_members [] h = ([], h)"
| "parse_members (m # ms) h =
     (case JSON_parse (snd m) h of (v, h1) \<Rightarrow>
        (case parse_members ms h1 of (props, h2) \<Rightarrow> ((fst m, v) # props, h2)))"

text \<open>
  Traversals of the heap follow references, so they are bounded by a recursion depth
  (the call stack of the engine); running out of it is \<^verbatim>\<open>RangeError\<close>.
\<close>

fun mapM :: "('a \<Rightarrow> error + 'b) \<Rightarrow> 'a list \<Rightarrow> error + 'b list" where
  "mapM f [] = Inr []"
| "mapM f (x # xs) =
     (case f x of Inl e \<Rightarrow> Inl e
      | Inr y \<Rightarrow> (case mapM f xs of Inl e \<Rightarrow> Inl e | Inr ys \<Rightarrow> Inr (y # ys)))"

fun JSON_stringify :: "nat \<Rightarrow> heap \<Rightarrow> val \<Rightarrow> error + json" where
  "JSON_stringify 0 h v = Inl RangeError"
| "JSON_stringify (Suc n) h VNull = Inr JNull"
| "JSON_stringify (Suc n) h (VBool b) = Inr (JBool b)"
| "JSON_stringify (Suc n) h (VNum r) = Inr (JNum r)"
| "JSON_stringify (Suc n) h (VStr s) = Inr (JStr s)"
| "JSON_stringify (Suc n) h (VRef a) =
     (case cells h a of
        Arr items \<Rightarrow>
          (case mapM (JSON_stringify n h) items of Inl e \<Rightarrow> Inl e | Inr ts \<Rightarrow> Inr (JArr ts))
      | Obj props \<Rightarrow>
          (case mapM (\<lambda>p. case JSON_stringify n h (snd p) of
                             Inl e \<Rightarrow> Inl e | Inr t \<Rightarrow> Inr (fst p, t)) props of
             Inl e \<Rightarrow> Inl e
           | Inr ms \<Rightarrow> Inr (JObj ms)))"

section \<open>Field stripping\<close>

text \<open>
  \<^verbatim>\<open>
  function removeUnsupportedFields(obj, fields) {
      if (Array.isArray(obj)) {
          obj.forEach(item => removeUnsupportedFields(item, fields));
      } else if (obj && typeof obj === 'object') {
          fields.forEach(field => {
              if (field in obj) delete obj[field];
          });
          Object.values(obj).forEach(value => removeUnsupportedFields(value, fields));
      }
  }
  \<close>
  The function returns nothing and changes the heap. \<^verbatim>\<open>Object.values\<close> is taken after
  the deletions; arrays are never changed by this program, so the elements that
  \<^verbatim>\<open>forEach\<close> visits are those of the array at the time of the call.
\<close>

fun forEach :: "('a \<Rightarrow> heap \<Rightarrow> error + heap) \<Rightarrow> 'a list \<Rightarrow> heap \<Rightarrow> error + heap" where
  "forEach f [] h = Inr h"
| "forEach f (x # xs) h = (case f x h of Inl e \<Rightarrow> Inl e | Inr h' \<Rightarrow> forEach f xs h')"

definition delete_prop :: "string \<Rightarrow> (string \<times> val) list \<Rightarrow> (string \<times> val) list" where
  "delete_prop field props =
     (if field \<in> fst ` set props then filter (\<lambda>p. fst p \<noteq> field) props else props)"

definition delete_fields :: "string list \<Rightarrow> (string \<times> val) list \<Rightarrow> (string \<times> val) list" where
  "delete_fields flds props = fold delete_prop flds props"

definition Object_values :: "(string \<times> val) list \<Rightarrow> val list" where
  "Object_values props = map snd props"

fun removeUnsupportedFields :: "nat \<Rightarrow> val \<Rightarrow> string list \<Rightarrow> heap \<Rightarrow> error + heap" where
  "removeUnsupportedFields 0 obj flds h = Inl RangeError"
| "removeUnsupportedFields (Suc n) (VRef a) flds h =
     (case cells h a of
        Arr items \<Rightarrow> forEach (\<lambda>item. removeUnsupportedFields n item flds) items h
      | Obj props \<Rightarrow>
          (let props' = delete_fields flds props;
               h1 = h\<lparr>cells := (cells h)(a := Obj props')\<rparr>
           in forEach (\<lambda>value. removeUnsupportedFields n value flds) (Object_values props') h1))"
| "removeUnsupportedFields (Suc n) obj flds h = Inr h"

text \<open>
  \<^verbatim>\<open>
  function makeBodyCompatible(body, targetVersion) {
      if (!body || targetVersion !== 'v1') return body;
      const newBody = JSON.parse(JSON.stringify(body));
      const unsupportedFields = ['systemInstruction', 'tool_config', 'tool_calls'];
      removeUnsupportedFields(newBody, unsupportedFields);
      return newBody;
  }
  \<close>
\<close>

definition unsupportedFields :: "string list" where
  "unsupportedFields = [''systemInstruction'', ''tool_config'', ''tool_calls'']"

definition makeBodyCompatible ::
  "nat \<Rightarrow> val option \<Rightarrow> string \<Rightarrow> heap \<Rightarrow> error + (val option \<times> heap)" where
  "makeBodyCompatible fuel body targetVersion h =
     (case body of
        None \<Rightarrow> Inr (body, h)
      | Some b \<Rightarrow>
          if \<not> truthy b \<or> targetVersion \<noteq> ''v1'' then Inr (body, h)
          else
            (case JSON_stringify fuel h b of
               Inl e \<Rightarrow> Inl e
             | Inr text \<Rightarrow>
                 (case JSON_parse text h of
                    (newBody, h1) \<Rightarrow>
                      (case removeUnsupportedFields fuel newBody unsupportedFields h1 of
                         Inl e \<Rightarrow> Inl e
                       | Inr h2 \<Rightarrow> Inr (Some newBody, h2)))))"

section \<open>Version-feature detection\<close>

text \<open>
  \<^verbatim>\<open>
  function needsVersionDowngrade(body) {
      if (!body || typeof body !== 'object') return false;
      const unsupportedInV1 = ['systemInstruction', 'tool_config', 'tool_calls'];
      for (const param of unsupportedInV1) {
          if (body[param]) return true;
      }
      if (body.contents && Array.isArray(body.contents)) {
          for (const content of body.contents) {
              if (content.parts && Array.isArray(content.parts)) {
                  for (const part of content.parts) {
                      for (const param of unsupportedInV1) {
                          if (part[param]) return true;
                      }
                  }
              }
          }
      }
      return false;
  }
  \<close>
  Reading a property of \<^verbatim>\<open>null\<close> throws \<^verbatim>\<open>TypeError\<close>; reading one of a boolean, a
  number or a string gives \<^verbatim>\<open>undefined\<close> for the names this program reads
  (\<^verbatim>\<open>contents\<close>, \<^verbatim>\<open>parts\<close> and the three feature names), and so does reading one of
  them from an array.
\<close>

fun get_prop :: "heap \<Rightarrow> val \<Rightarrow> string \<Rightarrow> error + val option" where
  "get_prop h VNull k = Inl TypeError"
| "get_prop h (VRef a) k =
     (case cells h a of Obj props \<Rightarrow> Inr (map_of props k) | Arr items \<Rightarrow> Inr None)"
| "get_prop h v k = Inr None"

fun typeof_object :: "val \<Rightarrow> bool" where
  "typeof_object VNull = True"
| "typeof_object (VRef a) = True"
| "typeof_object v = False"

fun isArray :: "heap \<Rightarrow> val option \<Rightarrow> bool" where
  "isArray h (Some (VRef a)) = (case cells h a of Arr items \<Rightarrow> True | Obj props \<Rightarrow> False)"
| "isArray h v = False"

fun elements :: "heap \<Rightarrow> val option \<Rightarrow> val list" where
  "elements h (Some (VRef a)) = (case cells h a of Arr items \<Rightarrow> items | Obj props \<Rightarrow> [])"
| "elements h v = []"

definition unsupportedInV1 :: "string list" where
  "unsupportedInV1 = [''systemInstruction'', ''tool_config'', ''tool_calls'']"

text \<open>The loop \<^verbatim>\<open>for (const param of unsupportedInV1) if (x[param]) return true\<close>.\<close>

fun any_param :: "heap \<Rightarrow> val \<Rightarrow> string list \<Rightarrow> error + bool" where
  "any_param h x [] = Inr False"
| "any_param h x (param # params) =
     (case get_prop h x param of
        Inl e \<Rightarrow> Inl e
      | Inr p \<Rightarrow> if truthy_opt p then Inr True else any_param h x params)"

fun scan_parts :: "heap \<Rightarrow> val list \<Rightarrow> error + bool" where
  "scan_parts h [] = Inr False"
| "scan_parts h (part # parts) =
     (case any_param h part unsupportedInV1 of
        Inl e \<Rightarrow> Inl e
      | Inr found \<Rightarrow> if found then Inr True else scan_parts h parts)"

fun scan_contents :: "heap \<Rightarrow> val list \<Rightarrow> error + bool" where
  "scan_contents h [] = Inr False"
| "scan_contents h (content # contents) =
     (case get_prop h content ''parts'' of
        Inl e \<Rightarrow> Inl e
      | Inr parts \<Rightarrow>
          (case (if truthy_opt parts \<and> isArray h parts then scan_parts h (elements h parts)
                 else Inr False) of
             Inl e \<Rightarrow> Inl e
           | Inr found \<Rightarrow> if found then Inr True else scan_contents h contents))"

definition needsVersionDowngrade :: "heap \<Rightarrow> val option \<Rightarrow> error + bool" where
  "needsVersionDowngrade h body =
     (case body of
        None \<Rightarrow> Inr False
      | Some b \<Rightarrow>
          if \<not> truthy b \<or> \<not> typeof_object b then Inr False
          else
            (case any_param h b unsupportedInV1 of
               Inl e \<Rightarrow> Inl e
             | Inr found \<Rightarrow>
                 if found then Inr True
                 else
                   (case get_prop h b ''contents'' of
                      Inl e \<Rightarrow> Inl e
                    | Inr contents \<Rightarrow>
                        if truthy_opt contents \<and> isArray h contents
                        then scan_contents h (elements h contents)
                        else Inr False)))"

section \<open>Credential extraction\<close>

text \<open>
  A header value is a string of code units below 256 (the HTTP parser decodes header
  bytes one to one), which is what a \<open>char\<close> is. A query value is a string, or an
  array or object when the parameter is repeated or nested.
\<close>

datatype qval =
    QStr string
  | QArr "qval list"
  | QObj "(string \<times> qval) list"

record request =
  req_method :: string
  req_path :: string
  req_headers :: "(string \<times> string) list"
  req_query :: "(string \<times> qval) list"
  req_body :: "val option"

fun qtruthy :: "qval option \<Rightarrow> bool" where
  "qtruthy None = False"
| "qtruthy (Some (QStr s)) = (s \<noteq> [])"
| "qtruthy (Some q) = True"

text \<open>
  White space as \<^verbatim>\<open>\s\<close> and \<^verbatim>\<open>trim()\<close> read it, below 256: tab, line feed, vertical
  tab, form feed, carriage return, space and no-break space. The dot of a regular
  expression matches every character but a line terminator.
\<close>

definition js_space :: "char \<Rightarrow> bool" where
  "js_space c \<longleftrightarrow>
     c = CHR 0x09 \<or> c = CHR 0x0A \<or> c = CHR 0x0B \<or> c = CHR 0x0C \<or> c = CHR 0x0D
     \<or> c = CHR 0x20 \<or> c = CHR 0xA0"

definition line_terminator :: "char \<Rightarrow> bool" where
  "line_terminator c \<longleftrightarrow> c = CHR 0x0A \<or> c = CHR 0x0D"

definition trim :: "string \<Rightarrow> string" where
  "trim s = rev (dropWhile js_space (rev (dropWhile js_space s)))"

definition ascii_upper :: "char \<Rightarrow> char" where
  "ascii_upper c =
     (case map_of (zip ''abcdefghijklmnopqrstuvwxyz'' ''ABCDEFGHIJKLMNOPQRSTUVWXYZ'') c of
        Some u \<Rightarrow> u
      | None \<Rightarrow> c)"

definition toLowerCase :: "string \<Rightarrow> string" where
  "toLowerCase s =
     map (\<lambda>c. case map_of (zip ''ABCDEFGHIJKLMNOPQRSTUVWXYZ'' ''abcdefghijklmnopqrstuvwxyz'') c of
                 Some l \<Rightarrow> l
               | None \<Rightarrow> c) s"

text \<open>
  \<^verbatim>\<open>auth.match(/^Bearer\s+(.+)$/i)\<close>, returning the group. The letters of \<^verbatim>\<open>Bearer\<close> are
  compared ignoring case. \<^verbatim>\<open>\s+\<close> is greedy: it first takes the whole run of white space
  after \<^verbatim>\<open>Bearer\<close>, and gives characters back one at a time while \<^verbatim>\<open>(.+)$\<close> fails on
  what is left; \<^verbatim>\<open>(.+)$\<close> takes the rest of the value, which must be non-empty and free
  of line terminators.
\<close>

definition dot_plus_end :: "string \<Rightarrow> bool" where
  "dot_plus_end rest \<longleftrightarrow> rest \<noteq> [] \<and> list_all (\<lambda>c. \<not> line_terminator c) rest"

fun spaces_then_group :: "nat \<Rightarrow> string \<Rightarrow> string option" where
  "spaces_then_group 0 r = None"
| "spaces_then_group (Suc k) r =
     (if dot_plus_end (drop (Suc k) r) then Some (drop (Suc k) r) else spaces_then_group k r)"

definition bearer_match :: "string \<Rightarrow> string option" where
  "bearer_match auth =
     (if map ascii_upper (take 6 auth) = ''BEARER''
      then spaces_then_group (length (takeWhile js_space (drop 6 auth))) (drop 6 auth)
      else None)"

text \<open>
  \<^verbatim>\<open>
  function extractApiKey(req) {
      if (req.headers['x-goog-api-key']) return req.headers['x-goog-api-key'];
      const auth = req.headers['authorization'];
      if (auth) {
          const match = auth.match(/^Bearer\s+(.+)$/i);
          if (match) return match[1].trim();
          if (!auth.includes(' ')) return auth.trim();
      }
      const queryKeys = ['key', 'api_key', 'apikey', 'token', 'access_token'];
      for (const key of queryKeys) {
          if (req.query[key]) return req.query[key];
      }
      return null;
  }
  \<close>
  \<open>None\<close> is \<^verbatim>\<open>null\<close>. \<open>authorization_key\<close> is the block under \<^verbatim>\<open>if (auth)\<close>: \<open>Some\<close> when
  it returns, \<open>None\<close> when control falls through to the query parameters.
\<close>

definition authorization_key :: "string \<Rightarrow> string option" where
  "authorization_key auth =
     (case bearer_match auth of
        Some group1 \<Rightarrow> Some (trim group1)
      | None \<Rightarrow> if CHR '' '' \<notin> set auth then Some (trim auth) else None)"

definition queryKeys :: "string list" where
  "queryKeys = [''key'', ''api_key'', ''apikey'', ''token'', ''access_token'']"

fun query_key :: "string list \<Rightarrow> (string \<times> qval) list \<Rightarrow> qval option" where
  "query_key [] query = None"
| "query_key (key # keys) query =
     (if qtruthy (map_of query key) then map_of query key else query_key keys query)"

definition extractApiKey :: "request \<Rightarrow> qval option" where
  "extractApiKey req =
     (case (case map_of (req_headers req) ''x-goog-api-key'' of
              Some k \<Rightarrow> if k \<noteq> [] then Some k else None
            | None \<Rightarrow> None) of
        Some k \<Rightarrow> Some (QStr k)
      | None \<Rightarrow>
          (case (case map_of (req_headers req) ''authorization'' of
                   Some auth \<Rightarrow> if auth \<noteq> [] then authorization_key auth else None
                 | None \<Rightarrow> None) of
             Some k \<Rightarrow> Some (QStr k)
           | None \<Rightarrow> query_key queryKeys (req_query req)))"

section \<open>The request handler\<close>

text \<open>
  The response object: the handler sets a status and headers, and sends a JSON payload,
  pipes the upstream byte stream, or ends the response with no payload. The middleware
  in front of the handler has only set headers (\<open>hdrs\<close> below) when the handler starts.
\<close>

datatype payload =
    NoPayload
  | Json json
  | Piped string

record res =
  statusCode :: nat
  res_headers :: "(string \<times> string) list"
  headersSent :: bool
  res_payload :: payload

definition new_res :: "(string \<times> string) list \<Rightarrow> res" where
  "new_res hdrs = \<lparr>statusCode = 200, res_headers = hdrs, headersSent = False, res_payload = NoPayload\<rparr>"

definition set_prop :: "string \<Rightarrow> 'a \<Rightarrow> (string \<times> 'a) list \<Rightarrow> (string \<times> 'a) list" where
  "set_prop k v ps =
     (if k \<in> fst ` set ps then map (\<lambda>p. if fst p = k then (k, v) else p) ps else ps @ [(k, v)])"

definition res_status :: "nat \<Rightarrow> res \<Rightarrow> res" where
  "res_status code r = r\<lparr>statusCode := code\<rparr>"

text \<open>
  Response header names are compared ignoring case: setting a header replaces the one
  of the same name. \<^verbatim>\<open>res.json\<close> sets the content type unless one is set already.
\<close>

definition res_setHeader :: "string \<Rightarrow> string \<Rightarrow> res \<Rightarrow> res" where
  "res_setHeader k v r =
     r\<lparr>res_headers :=
         filter (\<lambda>p. toLowerCase (fst p) \<noteq> toLowerCase k) (res_headers r) @ [(k, v)]\<rparr>"

definition res_end :: "res \<Rightarrow> res" where
  "res_end r = r\<lparr>headersSent := True\<rparr>"

definition res_json :: "json \<Rightarrow> res \<Rightarrow> res" where
  "res_json j r =
     (if ''content-type'' \<in> set (map (\<lambda>p. toLowerCase (fst p)) (res_headers r)) then r
      else res_setHeader ''Content-Type'' ''application/json; charset=utf-8'' r)
       \<lparr>headersSent := True, res_payload := Json j\<rparr>"

definition res_pipe :: "string \<Rightarrow> res \<Rightarrow> res" where
  "res_pipe bytes r = r\<lparr>headersSent := True, res_payload := Piped bytes\<rparr>"

text \<open>
  The outbound call, as the handler hands it to the HTTP client, and what the client
  gives back: a connection failure with its message, or a response of any status.
\<close>

record outbound =
  out_method :: string
  out_host :: string
  out_path :: string
  out_query :: "(string \<times> qval) list"
  out_headers :: "(string \<times> string) list"
  out_data :: "val option"

datatype upstream_result =
    Fails string
  | Replies nat "(string \<times> string) list" string

text \<open>
  What the handler takes from its surroundings: the process data shown by the debug
  route, the fresh identifier of the response, and the HTTP client.
\<close>

record env =
  server_info :: json
  proxy_request_id :: string
  axios :: "outbound \<Rightarrow> upstream_result"

definition UPSTREAM_HOST :: string where
  "UPSTREAM_HOST = ''https://generativelanguage.googleapis.com''"

definition DEFAULT_API_VERSION :: string where
  "DEFAULT_API_VERSION = ''v1beta''"

definition startsWith :: "string \<Rightarrow> string \<Rightarrow> bool" where
  "startsWith s p \<longleftrightarrow> take (length p) s = p"

text \<open>
  \<^verbatim>\<open>path.match(/^\/(v1|v1beta)\//)\<close>, returning the group: the alternatives are tried in
  order.
\<close>

definition versionMatch :: "string \<Rightarrow> string option" where
  "versionMatch path =
     (if startsWith path ''/v1/'' then Some ''v1''
      else if startsWith path ''/v1beta/'' then Some ''v1beta''
      else None)"

text \<open>
  \<^verbatim>\<open>
  let targetVersion = DEFAULT_API_VERSION;
  const versionMatch = path.match(/^\/(v1|v1beta)\//);
  if (versionMatch) {
      targetVersion = versionMatch[1];
  } else if (needsVersionDowngrade(body)) {
      targetVersion = 'v1beta';
  }
  \<close>
\<close>

definition negotiateVersion :: "heap \<Rightarrow> string \<Rightarrow> val option \<Rightarrow> error + string" where
  "negotiateVersion h path body =
     (case versionMatch path of
        Some v \<Rightarrow> Inr v
      | None \<Rightarrow>
          (case needsVersionDowngrade h body of
             Inl e \<Rightarrow> Inl e
           | Inr needed \<Rightarrow> if needed then Inr ''v1beta'' else Inr DEFAULT_API_VERSION))"

definition buildTargetPath :: "string \<Rightarrow> string \<Rightarrow> string" where
  "buildTargetPath path targetVersion =
     (if \<not> startsWith path (''/'' @ targetVersion @ ''/'') \<and> \<not> startsWith path ''/v1/''
         \<and> \<not> startsWith path ''/v1beta/''
      then ''/'' @ targetVersion @ (if startsWith path ''/'' then [] else ''/'') @ path
      else path)"

definition buildQueryParams :: "(string \<times> qval) list \<Rightarrow> qval \<Rightarrow> (string \<times> qval) list" where
  "buildQueryParams query apiKey =
     set_prop ''key'' apiKey
       (filter (\<lambda>p. fst p \<notin> set [''key'', ''api_key'', ''apikey'', ''token'', ''access_token'', ''debug''])
          query)"

definition skipHeaders :: "string list" where
  "skipHeaders = [''host'', ''connection'', ''content-length'', ''x-goog-api-key'', ''authorization'',
     ''x-api-key'', ''api-key'', ''accept-encoding'']"

definition buildUpstreamHeaders :: "(string \<times> string) list \<Rightarrow> (string \<times> string) list" where
  "buildUpstreamHeaders headers =
     fold (\<lambda>p acc. if toLowerCase (fst p) \<notin> set skipHeaders then set_prop (fst p) (snd p) acc else acc)
       headers
       [(''Content-Type'', ''application/json''), (''User-Agent'', ''Gemini-API-Proxy/Node-No-Limits'')]"

definition safeHeaders :: "string list" where
  "safeHeaders = [''content-type'', ''content-encoding'', ''cache-control'', ''expires'',
     ''last-modified'', ''etag'', ''vary'', ''x-goog-generation'', ''x-goog-metageneration'']"

definition relay :: "env \<Rightarrow> nat \<Rightarrow> (string \<times> string) list \<Rightarrow> string \<Rightarrow> res \<Rightarrow> res" where
  "relay e status responseHeaders bytes r =
     res_pipe bytes
       (res_status status
          (res_setHeader ''X-Proxy-Request-ID'' (proxy_request_id e)
             (fold (\<lambda>p acc. if toLowerCase (fst p) \<in> set safeHeaders \<or> startsWith (fst p) ''x-goog-''
                             then res_setHeader (fst p) (snd p) acc else acc)
                responseHeaders r)))"

definition unauthenticated_json :: json where
  "unauthenticated_json =
     JObj [(''error'', JObj [(''code'', JNum 401), (''message'', JStr ''API key not found''),
                             (''status'', JStr ''UNAUTHENTICATED'')])]"

definition bad_gateway_json :: "string \<Rightarrow> json" where
  "bad_gateway_json message =
     JObj [(''error'', JObj [(''code'', JNum 502),
                             (''message'', JStr (''Failed to connect to Google Gemini API: '' @ message)),
                             (''status'', JStr ''BAD_GATEWAY'')])]"

definition debug_json :: "env \<Rightarrow> string \<Rightarrow> string \<Rightarrow> qval option \<Rightarrow> json" where
  "debug_json e method path apiKey =
     JObj [(''debug'', JBool True), (''method'', JStr method), (''path'', JStr path),
           (''api_key_found'', JBool (qtruthy apiKey)), (''server_info'', server_info e)]"

text \<open>
  The \<^verbatim>\<open>catch\<close> block of the handler:
  \<^verbatim>\<open>
  if (!res.headersSent) {
      res.status(502).json({ error: { code: 502,
          message: 'Failed to connect to Google Gemini API: ' + error.message,
          status: 'BAD_GATEWAY' } });
  }
  \<close>
\<close>

definition catch_block :: "string \<Rightarrow> res \<Rightarrow> res" where
  "catch_block message r =
     (if \<not> headersSent r then res_json (bad_gateway_json message) (res_status 502 r) else r)"

text \<open>
  What one run of the handler leaves: the response, the outbound call if one was made,
  and the heap. An exception thrown outside the \<^verbatim>\<open>try\<close> block leaves the handler
  (\<open>Inl\<close>). Logging is left out: it changes nothing the handler returns. The test
  \<^verbatim>\<open>if (!apiKey)\<close> is the case distinction on the key below: \<open>None\<close> when the key is
  \<^verbatim>\<open>null\<close> or empty.
\<close>

record outcome =
  response :: res
  upstream_call :: "outbound option"
  heap_after :: heap

definition is_debug :: "request \<Rightarrow> bool" where
  "is_debug req \<longleftrightarrow>
     map_of (req_query req) ''debug'' = Some (QStr ''true'')
     \<or> map_of (req_headers req) ''http-debug'' = Some ''true''"

definition handler ::
  "env \<Rightarrow> nat \<Rightarrow> request \<Rightarrow> (string \<times> string) list \<Rightarrow> heap \<Rightarrow> error + outcome" where
  "handler e fuel req hdrs h =
     (if req_path req = ''/favicon.ico''
      then Inr \<lparr>response = res_end (res_status 404 (new_res hdrs)), upstream_call = None, heap_after = h\<rparr>
      else
        (let apiKey = extractApiKey req;
             method = req_method req;
             path = req_path req;
             body = req_body req
         in if is_debug req
            then Inr \<lparr>response = res_json (debug_json e method path apiKey) (new_res hdrs),
                      upstream_call = None, heap_after = h\<rparr>
            else
              (case (if qtruthy apiKey then apiKey else None) of
                 None \<Rightarrow>
                   Inr \<lparr>response = res_json unauthenticated_json (res_status 401 (new_res hdrs)),
                        upstream_call = None, heap_after = h\<rparr>
               | Some key \<Rightarrow>
                   (case negotiateVersion h path body of
                      Inl err \<Rightarrow> Inl err
                    | Inr targetVersion \<Rightarrow>
                        (case makeBodyCompatible fuel body targetVersion h of
                           Inl err \<Rightarrow> Inl err
                         | Inr (compatibleBody, h') \<Rightarrow>
                             (let call = \<lparr>out_method = method,
                                          out_host = UPSTREAM_HOST,
                                          out_path = buildTargetPath path targetVersion,
                                          out_query = buildQueryParams (req_query req) key,
                                          out_headers = buildUpstreamHeaders (req_headers req),
                                          out_data = (if method \<in> set [''POST'', ''PUT'', ''PATCH'']
                                                      then compatibleBody else None)\<rparr>
                              in Inr \<lparr>response =
                                        (case axios e call of
                                           Fails message \<Rightarrow> catch_block message (new_res hdrs)
                                         | Replies status responseHeaders bytes \<Rightarrow>
                                             relay e status responseHeaders bytes (new_res hdrs)),
                                      upstream_call = Some call, heap_after = h'\<rparr>))))))"

section \<open>Documents and bodies\<close>

text \<open>
  The nesting depth of a document bounds the recursion depth a traversal of it needs.
\<close>

fun depth :: "json \<Rightarrow> nat"
  and depth_elems :: "json list \<Rightarrow> nat"
  and depth_members :: "(string \<times> json) list \<Rightarrow> nat" where
  "depth (JArr ts) = Suc (depth_elems ts)"
| "depth (JObj ms) = Suc (depth_members ms)"
| "depth _ = 0"
| "depth_elems [] = 0"
| "depth_elems (t # ts) = max (depth t) (depth_elems ts)"
| "depth_members [] = 0"
| "depth_members (m # ms) = max (depth (snd m)) (depth_members ms)"

text \<open>
  The transform as the specification words it, a pure function on documents: every
  member whose name is one of the fields is dropped, in every object at every depth,
  and nothing else changes. \<open>occurs\<close> says that a name is a member name somewhere in a
  document.
\<close>

fun strip_fields :: "string list \<Rightarrow> json \<Rightarrow> json"
  and strip_elems :: "string list \<Rightarrow> json list \<Rightarrow> json list"
  and strip_members :: "string list \<Rightarrow> (string \<times> json) list \<Rightarrow> (string \<times> json) list" where
  "strip_fields fs (JArr ts) = JArr (strip_elems fs ts)"
| "strip_fields fs (JObj ms) = JObj (strip_members fs ms)"
| "strip_fields fs t = t"
| "strip_elems fs [] = []"
| "strip_elems fs (t # ts) = strip_fields fs t # strip_elems fs ts"
| "strip_members fs [] = []"
| "strip_members fs (m # ms) =
     (if fst m \<in> set fs then strip_members fs ms
      else (fst m, strip_fields fs (snd m)) # strip_members fs ms)"

fun occurs :: "string \<Rightarrow> json \<Rightarrow> bool"
  and occurs_elems :: "string \<Rightarrow> json list \<Rightarrow> bool"
  and occurs_members :: "string \<Rightarrow> (string \<times> json) list \<Rightarrow> bool" where
  "occurs f (JArr ts) = occurs_elems f ts"
| "occurs f (JObj ms) = occurs_members f ms"
| "occurs f t = False"
| "occurs_elems f [] = False"
| "occurs_elems f (t # ts) = (occurs f t \<or> occurs_elems f ts)"
| "occurs_members f [] = False"
| "occurs_members f (m # ms) = (fst m = f \<or> occurs f (snd m) \<or> occurs_members f ms)"

text \<open>
  \<open>tree h v t lo hi\<close>: in the heap \<open>h\<close> the value \<open>v\<close> is the root of a tree of cells that
  reads as the document \<open>t\<close>; the cells lie in the address range from \<open>lo\<close> up to but not
  including \<open>hi\<close>, the children of a cell below it, each in a range of its own. This is
  the shape the body parser builds: no cell is shared and none is reachable twice.
  \<open>frame_out h h' lo hi\<close>: the heaps agree outside that range.
\<close>

inductive tree :: "heap \<Rightarrow> val \<Rightarrow> json \<Rightarrow> addr \<Rightarrow> addr \<Rightarrow> bool"
  and trees :: "heap \<Rightarrow> val list \<Rightarrow> json list \<Rightarrow> addr \<Rightarrow> addr \<Rightarrow> bool"
  and members :: "heap \<Rightarrow> (string \<times> val) list \<Rightarrow> (string \<times> json) list \<Rightarrow> addr \<Rightarrow> addr \<Rightarrow> bool"
  for h :: heap where
  tree_null: "tree h VNull JNull lo hi"
| tree_bool: "tree h (VBool b) (JBool b) lo hi"
| tree_num: "tree h (VNum r) (JNum r) lo hi"
| tree_str: "tree h (VStr s) (JStr s) lo hi"
| tree_arr: "cells h a = Arr vs \<Longrightarrow> lo \<le> a \<Longrightarrow> a < hi \<Longrightarrow> trees h vs ts lo a
     \<Longrightarrow> tree h (VRef a) (JArr ts) lo hi"
| tree_obj: "cells h a = Obj props \<Longrightarrow> lo \<le> a \<Longrightarrow> a < hi \<Longrightarrow> members h props ms lo a
     \<Longrightarrow> tree h (VRef a) (JObj ms) lo hi"
| trees_nil: "trees h [] [] lo hi"
| trees_cons: "tree h v t lo mid \<Longrightarrow> lo \<le> mid \<Longrightarrow> mid \<le> hi \<Longrightarrow> trees h vs ts mid hi
     \<Longrightarrow> trees h (v # vs) (t # ts) lo hi"
| members_nil: "members h [] [] lo hi"
| members_cons: "tree h v t lo mid \<Longrightarrow> lo \<le> mid \<Longrightarrow> mid \<le> hi \<Longrightarrow> members h props ms mid hi
     \<Longrightarrow> members h ((k, v) # props) ((k, t) # ms) lo hi"

definition frame_out :: "heap \<Rightarrow> heap \<Rightarrow> addr \<Rightarrow> addr \<Rightarrow> bool" where
  "frame_out h h' lo hi \<longleftrightarrow>
     next_free h' = next_free h \<and> (\<forall>a. a < lo \<or> hi \<le> a \<longrightarrow> cells h' a = cells h a)"

text \<open>
  A body whose \<^verbatim>\<open>contents\<close> array holds no \<^verbatim>\<open>null\<close>, and whose elements hold no \<^verbatim>\<open>null\<close>
  in their \<^verbatim>\<open>parts\<close> array.
\<close>

definition content_ok :: "json \<Rightarrow> bool" where
  "content_ok content \<longleftrightarrow>
     content \<noteq> JNull \<and>
     (case content of
        JObj ms \<Rightarrow> (case map_of ms ''parts'' of Some (JArr parts) \<Rightarrow> JNull \<notin> set parts | _ \<Rightarrow> True)
      | _ \<Rightarrow> True)"

definition no_null_elements :: "json \<Rightarrow> bool" where
  "no_null_elements t \<longleftrightarrow>
     (case t of
        JObj ms \<Rightarrow> (case map_of ms ''contents'' of Some (JArr contents) \<Rightarrow> list_all content_ok contents | _ \<Rightarrow> True)
      | _ \<Rightarrow> True)"

section \<open>Sample inputs\<close>

text \<open>
  A request body with the three restricted fields at different depths: at the top, in a
  part of \<^verbatim>\<open>contents\<close>, and in an object that is no part of the known shape.
\<close>

definition example_body :: json where
  "example_body =
     JObj [(''systemInstruction'', JObj [(''parts'', JArr [JObj [(''text'', JStr ''be brief'')]])]),
           (''contents'',
            JArr [JObj [(''role'', JStr ''user''),
                        (''parts'', JArr [JObj [(''text'', JStr ''hi''),
                                                 (''tool_calls'', JArr [JNum 1])]])]]),
           (''meta'', JObj [(''tool_config'', JNull), (''keep'', JBool True)])]"

definition example_body_stripped :: json where
  "example_body_stripped =
     JObj [(''contents'',
            JArr [JObj [(''role'', JStr ''user''),
                        (''parts'', JArr [JObj [(''text'', JStr ''hi'')]])]]),
           (''meta'', JObj [(''keep'', JBool True)])]"

text \<open>Bodies with a \<^verbatim>\<open>null\<close> where the detection expects an object.\<close>

definition null_content_body :: json where
  "null_content_body = JObj [(''contents'', JArr [JNull])]"

definition null_part_body :: json where
  "null_part_body =
     JObj [(''contents'',
            JArr [JObj [(''parts'',
                        JArr [JNull, JObj [(''text'', JStr ''hi'')],
                              JObj [(''functionCall'', JObj [(''tool_calls'', JBool True)])]])]])]"

text \<open>
  An environment whose HTTP client cannot connect, and requests: one with the vendor
  key header, one asking for the debug route without a key, one with an empty key
  parameter only, and one with an \<^verbatim>\<open>Authorization\<close> header only.
\<close>

definition example_env :: env where
  "example_env =
     \<lparr>server_info = JObj [(''platform'', JStr ''linux'')],
      proxy_request_id = ''4b1c'',
      axios = (\<lambda>call. Fails ''connect ECONNREFUSED'')\<rparr>"

definition keyed_request :: "string \<Rightarrow> string \<Rightarrow> val option \<Rightarrow> request" where
  "keyed_request method path body =
     \<lparr>req_method = method, req_path = path, req_headers = [(''x-goog-api-key'', ''XYZ'')],
      req_query = [], req_body = body\<rparr>"

definition debug_request :: request where
  "debug_request =
     \<lparr>req_method = ''GET'', req_path = ''/models'', req_headers = [],
      req_query = [(''debug'', QStr ''true'')], req_body = None\<rparr>"

definition anonymous_request :: request where
  "anonymous_request =
     \<lparr>req_method = ''GET'', req_path = ''/models'', req_headers = [(''accept'', ''*/*'')],
      req_query = [(''key'', QStr [])], req_body = None\<rparr>"

definition authorization_request :: "string \<Rightarrow> (string \<times> qval) list \<Rightarrow> request" where
  "authorization_request auth query =
     \<lparr>req_method = ''GET'', req_path = ''/models'', req_headers = [(''authorization'', auth)],
      req_query = query, req_body = None\<rparr>"

section \<open>Lemmas on parsing, writing and stripping\<close>

text \<open>
  The parser builds a tree in fresh cells and leaves the old cells alone; a tree reads
  back as its document; stripping a tree gives the tree of the stripped document and
  touches no cell outside it, so it never throws when the call stack is deep enough.
\<close>

lemma tree_mono:
  "tree h v t lo hi \<Longrightarrow> lo' \<le> lo \<Longrightarrow> hi \<le> hi' \<Longrightarrow> tree h v t lo' hi'"
  "trees h vs ts lo hi \<Longrightarrow> lo' \<le> lo \<Longrightarrow> hi \<le> hi' \<Longrightarrow> trees h vs ts lo' hi'"
  "members h props ms lo hi \<Longrightarrow> lo' \<le> lo \<Longrightarrow> hi \<le> hi' \<Longrightarrow> members h props ms lo' hi'"
proof (induction arbitrary: lo' hi' and lo' hi' and lo' hi' rule: tree_trees_members.inducts)
  case (trees_cons v t lo mid hi vs ts)
  have "tree h v t lo' mid" by (rule trees_cons.IH(2)) (use trees_cons.prems in auto)
  moreover have "trees h vs ts mid hi'" by (rule trees_cons.IH(4)) (use trees_cons.prems in auto)
  ultimately show ?case using trees_cons.hyps trees_cons.prems
    by (intro tree_trees_members.trees_cons[where mid=mid]) auto
next
  case (members_cons v t lo mid hi props ms k)
  have "tree h v t lo' mid" by (rule members_cons.IH(2)) (use members_cons.prems in auto)
  moreover have "members h props ms mid hi'" by (rule members_cons.IH(4)) (use members_cons.prems in auto)
  ultimately show ?case using members_cons.hyps members_cons.prems
    by (intro tree_trees_members.members_cons[where mid=mid]) auto
next
  case (tree_arr a vs lo hi ts)
  have "trees h vs ts lo' a" using tree_arr.IH tree_arr.prems by auto
  then show ?case using tree_arr
    by (intro tree_trees_members.tree_arr[where vs=vs]) auto
next
  case (tree_obj a props lo hi ms)
  have "members h props ms lo' a" using tree_obj.IH tree_obj.prems by auto
  then show ?case using tree_obj
    by (intro tree_trees_members.tree_obj[where props=props]) auto
qed (auto intro: tree_trees_members.intros)

lemma tree_frame:
  "tree h v t lo hi \<Longrightarrow> (\<And>a. lo \<le> a \<Longrightarrow> a < hi \<Longrightarrow> cells h' a = cells h a) \<Longrightarrow> tree h' v t lo hi"
  "trees h vs ts lo hi \<Longrightarrow> (\<And>a. lo \<le> a \<Longrightarrow> a < hi \<Longrightarrow> cells h' a = cells h a) \<Longrightarrow> trees h' vs ts lo hi"
  "members h props ms lo hi \<Longrightarrow> (\<And>a. lo \<le> a \<Longrightarrow> a < hi \<Longrightarrow> cells h' a = cells h a) \<Longrightarrow> members h' props ms lo hi"
proof (induction rule: tree_trees_members.inducts)
  case (tree_arr a vs lo hi ts)
  then show ?case by (auto intro!: tree_trees_members.tree_arr)
next
  case (tree_obj a props lo hi ms)
  then show ?case by (auto intro!: tree_trees_members.tree_obj)
next
  case (trees_cons v t lo mid hi vs ts)
  then show ?case by (auto intro!: tree_trees_members.trees_cons[where mid=mid])
next
  case (members_cons v t lo mid hi props ms k)
  then show ?case by (auto intro!: tree_trees_members.members_cons[where mid=mid])
qed (auto intro: tree_trees_members.intros)

lemma alloc_simps [simp]:
  "fst (alloc c h) = VRef (next_free h)"
  "next_free (snd (alloc c h)) = Suc (next_free h)"
  "cells (snd (alloc c h)) = (cells h)(next_free h := c)"
  by (simp_all add: alloc_def)

lemma parse_tree:
  "JSON_parse t h = (v, h') \<Longrightarrow>
     tree h' v t (next_free h) (next_free h') \<and> next_free h \<le> next_free h'
     \<and> (\<forall>a < next_free h. cells h' a = cells h a)"
  "parse_elems ts h = (vs, h') \<Longrightarrow>
     trees h' vs ts (next_free h) (next_free h') \<and> next_free h \<le> next_free h'
     \<and> (\<forall>a < next_free h. cells h' a = cells h a)"
  "parse_members ms h = (props, h') \<Longrightarrow>
     members h' props ms (next_free h) (next_free h') \<and> next_free h \<le> next_free h'
     \<and> (\<forall>a < next_free h. cells h' a = cells h a)"
proof (induction t h and ts h and ms h arbitrary: v h' and vs h' and props h'
    rule: JSON_parse_parse_elems_parse_members.induct)
  case (5 ts h)
  obtain vs h1 where pe: "parse_elems ts h = (vs, h1)" by (cases "parse_elems ts h")
  from 5(1)[OF pe] have t: "trees h1 vs ts (next_free h) (next_free h1)"
    and le: "next_free h \<le> next_free h1"
    and fr: "\<forall>a < next_free h. cells h1 a = cells h a" by auto
  from 5(2) pe have v: "v = VRef (next_free h1)" and h': "h' = snd (alloc (Arr vs) h1)"
    by (auto simp: alloc_def)
  have "trees h' vs ts (next_free h) (next_free h1)"
    by (rule tree_frame(2)[OF t]) (simp add: h')
  then have "tree h' v (JArr ts) (next_free h) (next_free h')"
    unfolding v using le by (intro tree_arr[where vs=vs]) (auto simp: h')
  then show ?case using le fr by (auto simp: h')
next
  case (6 ms h)
  obtain props1 h1 where pe: "parse_members ms h = (props1, h1)" by (cases "parse_members ms h")
  from 6(1)[OF pe] have t: "members h1 props1 ms (next_free h) (next_free h1)"
    and le: "next_free h \<le> next_free h1"
    and fr: "\<forall>a < next_free h. cells h1 a = cells h a" by auto
  from 6(2) pe have v: "v = VRef (next_free h1)" and h': "h' = snd (alloc (Obj props1) h1)"
    by (auto simp: alloc_def)
  have "members h' props1 ms (next_free h) (next_free h1)"
    by (rule tree_frame(3)[OF t]) (simp add: h')
  then have "tree h' v (JObj ms) (next_free h) (next_free h')"
    unfolding v using le by (intro tree_obj[where props=props1]) (auto simp: h')
  then show ?case using le fr by (auto simp: h')
next
  case (8 t ts h)
  obtain v1 h1 where p1: "JSON_parse t h = (v1, h1)" by (cases "JSON_parse t h")
  obtain vs2 h2 where p2: "parse_elems ts h1 = (vs2, h2)" by (cases "parse_elems ts h1")
  note a = 8(1)[OF p1] and b = 8(2)[OF p1[symmetric] p2]
  from 8(3) p1 p2 have vs: "vs = v1 # vs2" and h': "h' = h2" by auto
  have "tree h2 v1 t (next_free h) (next_free h1)"
    by (rule tree_frame(1)[where h=h1]) (use a b in auto)
  then have "trees h2 (v1 # vs2) (t # ts) (next_free h) (next_free h2)"
    using a b by (intro trees_cons[where mid="next_free h1"]) auto
  then show ?case using a b by (auto simp: vs h')
next
  case (10 m ms h)
  obtain v1 h1 where p1: "JSON_parse (snd m) h = (v1, h1)" by (cases "JSON_parse (snd m) h")
  obtain ps2 h2 where p2: "parse_members ms h1 = (ps2, h2)" by (cases "parse_members ms h1")
  note a = 10(1)[OF p1] and b = 10(2)[OF p1[symmetric] p2]
  from 10(3) p1 p2 have vs: "props = (fst m, v1) # ps2" and h': "h' = h2" by auto
  have "tree h2 v1 (snd m) (next_free h) (next_free h1)"
    by (rule tree_frame(1)[where h=h1]) (use a b in auto)
  then have "members h2 ((fst m, v1) # ps2) ((fst m, snd m) # ms) (next_free h) (next_free h2)"
    using a b by (intro members_cons[where mid="next_free h1"]) auto
  then show ?case using a b by (auto simp: vs h')
qed (auto intro: tree_trees_members.intros)

lemma stringify_tree:
  "tree h v t lo hi \<Longrightarrow> depth t < n \<Longrightarrow> JSON_stringify n h v = Inr t"
  "trees h vs ts lo hi \<Longrightarrow> depth_elems ts < n \<Longrightarrow> mapM (JSON_stringify n h) vs = Inr ts"
  "members h props ms lo hi \<Longrightarrow> depth_members ms < n \<Longrightarrow>
     mapM (\<lambda>p. case JSON_stringify n h (snd p) of Inl e \<Rightarrow> Inl e | Inr t \<Rightarrow> Inr (fst p, t)) props
       = Inr ms"
proof (induction arbitrary: n and n and n rule: tree_trees_members.inducts)
  case (tree_arr a vs lo hi ts)
  then obtain n' where n: "n = Suc n'" and d: "depth_elems ts < n'" by (cases n) auto
  have "mapM (JSON_stringify n' h) vs = Inr ts" using tree_arr.IH d by auto
  then show ?case using tree_arr by (simp add: n)
next
  case (tree_obj a props lo hi ms)
  then obtain n' where n: "n = Suc n'" and d: "depth_members ms < n'" by (cases n) auto
  have "mapM (\<lambda>p. case JSON_stringify n' h (snd p) of Inl e \<Rightarrow> Inl e | Inr t \<Rightarrow> Inr (fst p, t)) props
       = Inr ms" using tree_obj.IH d by auto
  then show ?case using tree_obj by (simp add: n)
next
  case (tree_null lo hi) then show ?case by (cases n) auto
next
  case (tree_bool b lo hi) then show ?case by (cases n) auto
next
  case (tree_num r lo hi) then show ?case by (cases n) auto
next
  case (tree_str s lo hi) then show ?case by (cases n) auto
qed auto

lemma frame_out_refl: "frame_out h h lo hi"
  by (simp add: frame_out_def)

lemma delete_prop_filter: "delete_prop f props = filter (\<lambda>p. fst p \<noteq> f) props"
proof (cases "f \<in> fst ` set props")
  case True then show ?thesis by (simp add: delete_prop_def)
next
  case False
  then have "filter (\<lambda>p. fst p \<noteq> f) props = props" by (auto intro!: filter_True)
  with False show ?thesis by (simp add: delete_prop_def)
qed

lemma delete_fields_filter: "delete_fields fs props = filter (\<lambda>p. fst p \<notin> set fs) props"
  unfolding delete_fields_def
proof (induction fs arbitrary: props)
  case Nil then show ?case by simp
next
  case (Cons f fs)
  have "filter (\<lambda>p. fst p \<notin> set fs) (filter (\<lambda>p. fst p \<noteq> f) props)
      = filter (\<lambda>p. fst p \<notin> set (f # fs)) props"
    by (induction props) auto
  then show ?case using Cons by (simp add: delete_prop_filter)
qed

lemma forEach_trees:
  assumes step: "\<And>h v t lo hi. tree h v t lo hi \<Longrightarrow> depth t < n \<Longrightarrow>
     \<exists>h'. removeUnsupportedFields n v fs h = Inr h' \<and> tree h' v (strip_fields fs t) lo hi \<and> frame_out h h' lo hi"
  shows "trees h vs ts lo hi \<Longrightarrow> depth_elems ts < n \<Longrightarrow>
     \<exists>h'. forEach (\<lambda>item. removeUnsupportedFields n item fs) vs h = Inr h'
        \<and> trees h' vs (strip_elems fs ts) lo hi \<and> frame_out h h' lo hi"
proof (induction vs arbitrary: h ts lo)
  case Nil
  then have "ts = []" by (auto elim: trees.cases)
  then show ?case by (auto intro: trees_nil frame_out_refl)
next
  case (Cons v vs)
  from Cons.prems(1) obtain t ts' mid where ts: "ts = t # ts'"
    and tv: "tree h v t lo mid" and lm: "lo \<le> mid" and mh: "mid \<le> hi"
    and tr: "trees h vs ts' mid hi"
    by (auto elim: trees.cases)
  from Cons.prems(2) ts have dt: "depth t < n" and dts: "depth_elems ts' < n" by auto
  from step[OF tv dt] obtain h1 where r1: "removeUnsupportedFields n v fs h = Inr h1"
    and t1: "tree h1 v (strip_fields fs t) lo mid" and f1: "frame_out h h1 lo mid" by blast
  have "trees h1 vs ts' mid hi"
    by (rule tree_frame(2)[OF tr]) (use f1 in \<open>auto simp: frame_out_def\<close>)
  from Cons.IH[OF this dts] obtain h2
    where r2: "forEach (\<lambda>item. removeUnsupportedFields n item fs) vs h1 = Inr h2"
    and t2: "trees h2 vs (strip_elems fs ts') mid hi" and f2: "frame_out h1 h2 mid hi" by blast
  have "tree h2 v (strip_fields fs t) lo mid"
    by (rule tree_frame(1)[OF t1]) (use f2 in \<open>auto simp: frame_out_def\<close>)
  then have "trees h2 (v # vs) (strip_elems fs ts) lo hi"
    using t2 lm mh by (auto simp: ts intro: trees_cons[where mid=mid])
  moreover have "frame_out h h2 lo hi"
    using f1 f2 lm mh by (auto simp: frame_out_def)
  ultimately show ?case using r1 r2 by simp
qed

lemma forEach_members:
  assumes step: "\<And>h v t lo hi. tree h v t lo hi \<Longrightarrow> depth t < n \<Longrightarrow>
     \<exists>h'. removeUnsupportedFields n v fs h = Inr h' \<and> tree h' v (strip_fields fs t) lo hi \<and> frame_out h h' lo hi"
  shows "members h props ms lo hi \<Longrightarrow> depth_members ms < n \<Longrightarrow>
     \<exists>h'. forEach (\<lambda>value. removeUnsupportedFields n value fs)
            (Object_values (delete_fields fs props)) h = Inr h'
        \<and> members h' (delete_fields fs props) (strip_members fs ms) lo hi \<and> frame_out h h' lo hi"
proof (induction props arbitrary: h ms lo)
  case Nil
  then have "ms = []" by (auto elim: members.cases)
  then show ?case
    by (auto simp: delete_fields_filter Object_values_def intro: members_nil frame_out_refl)
next
  case (Cons p props)
  from Cons.prems(1) obtain k v t ms' mid where p: "p = (k, v)" and ms: "ms = (k, t) # ms'"
    and tv: "tree h v t lo mid" and lm: "lo \<le> mid" and mh: "mid \<le> hi"
    and tr: "members h props ms' mid hi"
    by (auto elim: members.cases)
  from Cons.prems(2) ms have dt: "depth t < n" and dts: "depth_members ms' < n" by auto
  show ?case
  proof (cases "k \<in> set fs")
    case True
    from Cons.IH[OF tr dts] obtain h2
      where r2: "forEach (\<lambda>value. removeUnsupportedFields n value fs)
                   (Object_values (delete_fields fs props)) h = Inr h2"
      and t2: "members h2 (delete_fields fs props) (strip_members fs ms') mid hi"
      and f2: "frame_out h h2 mid hi" by blast
    have "members h2 (delete_fields fs (p # props)) (strip_members fs ms) lo hi"
      using tree_mono(3)[OF t2 lm order_refl] True by (simp add: p ms delete_fields_filter)
    moreover have "frame_out h h2 lo hi" using f2 lm by (auto simp: frame_out_def)
    ultimately show ?thesis using r2 True by (auto simp: p delete_fields_filter)
  next
    case False
    from step[OF tv dt] obtain h1 where r1: "removeUnsupportedFields n v fs h = Inr h1"
      and t1: "tree h1 v (strip_fields fs t) lo mid" and f1: "frame_out h h1 lo mid" by blast
    have "members h1 props ms' mid hi"
      by (rule tree_frame(3)[OF tr]) (use f1 in \<open>auto simp: frame_out_def\<close>)
    from Cons.IH[OF this dts] obtain h2
      where r2: "forEach (\<lambda>value. removeUnsupportedFields n value fs)
                   (Object_values (delete_fields fs props)) h1 = Inr h2"
      and t2: "members h2 (delete_fields fs props) (strip_members fs ms') mid hi"
      and f2: "frame_out h1 h2 mid hi" by blast
    have "tree h2 v (strip_fields fs t) lo mid"
      by (rule tree_frame(1)[OF t1]) (use f2 in \<open>auto simp: frame_out_def\<close>)
    then have "members h2 (delete_fields fs (p # props)) (strip_members fs ms) lo hi"
      using t2 lm mh False
      by (auto simp: p ms delete_fields_filter intro: members_cons[where mid=mid])
    moreover have "frame_out h h2 lo hi"
      using f1 f2 lm mh by (auto simp: frame_out_def)
    ultimately show ?thesis using r1 r2 False
      by (auto simp: p delete_fields_filter Object_values_def)
  qed
qed

lemma remove_tree:
  "tree h v t lo hi \<Longrightarrow> depth t < n \<Longrightarrow>
     \<exists>h'. removeUnsupportedFields n v fs h = Inr h' \<and> tree h' v (strip_fields fs t) lo hi \<and> frame_out h h' lo hi"
proof (induction n arbitrary: h v t lo hi)
  case 0
  then show ?case by simp
next
  case (Suc n)
  note step = Suc.IH
  from Suc.prems(1) show ?case
  proof (cases rule: tree.cases)
    case (tree_arr a vs ts)
    with Suc.prems(2) have d: "depth_elems ts < n" by simp
    from forEach_trees[OF step \<open>trees h vs ts lo a\<close> d] obtain h'
      where r: "forEach (\<lambda>item. removeUnsupportedFields n item fs) vs h = Inr h'"
      and t: "trees h' vs (strip_elems fs ts) lo a" and f: "frame_out h h' lo a" by blast
    have c: "cells h' a = Arr vs" using f tree_arr by (simp add: frame_out_def)
    have "tree h' v (strip_fields fs t) lo hi"
      using c t tree_arr by (auto intro: tree_trees_members.tree_arr)
    moreover have "frame_out h h' lo hi" using f tree_arr by (auto simp: frame_out_def)
    ultimately show ?thesis using r tree_arr by simp
  next
    case (tree_obj a props ms)
    with Suc.prems(2) have d: "depth_members ms < n" by simp
    define h1 where "h1 = h\<lparr>cells := (cells h)(a := Obj (delete_fields fs props))\<rparr>"
    have m1: "members h1 props ms lo a"
      by (rule tree_frame(3)[OF \<open>members h props ms lo a\<close>]) (simp add: h1_def)
    from forEach_members[OF step m1 d] obtain h'
      where r: "forEach (\<lambda>value. removeUnsupportedFields n value fs)
                  (Object_values (delete_fields fs props)) h1 = Inr h'"
      and t: "members h' (delete_fields fs props) (strip_members fs ms) lo a"
      and f: "frame_out h1 h' lo a" by blast
    have c: "cells h' a = Obj (delete_fields fs props)" using f by (simp add: frame_out_def h1_def)
    have "tree h' v (strip_fields fs t) lo hi"
      using c t tree_obj by (auto intro: tree_trees_members.tree_obj)
    moreover have "frame_out h h' lo hi" using f tree_obj by (auto simp: frame_out_def h1_def)
    ultimately show ?thesis using r tree_obj by (simp add: h1_def Let_def)
  qed (auto intro: tree_trees_members.intros frame_out_refl)
qed

lemma occurs_strip_fields:
  "f \<in> set fs \<Longrightarrow> \<not> occurs f (strip_fields fs t)"
  "f \<in> set fs \<Longrightarrow> \<not> occurs_elems f (strip_elems fs ts)"
  "f \<in> set fs \<Longrightarrow> \<not> occurs_members f (strip_members fs ms)"
  by (induction fs t and fs ts and fs ms rule: strip_fields_strip_elems_strip_members.induct) auto

lemma strip_fields_idem:
  "strip_fields fs (strip_fields fs t) = strip_fields fs t"
  "strip_elems fs (strip_elems fs ts) = strip_elems fs ts"
  "strip_members fs (strip_members fs ms) = strip_members fs ms"
  by (induction fs t and fs ts and fs ms rule: strip_fields_strip_elems_strip_members.induct) auto

lemma depth_strip_fields:
  "depth (strip_fields fs t) \<le> depth t"
  "depth_elems (strip_elems fs ts) \<le> depth_elems ts"
  "depth_members (strip_members fs ms) \<le> depth_members ms"
  by (induction fs t and fs ts and fs ms rule: strip_fields_strip_elems_strip_members.induct) auto

lemma strip_fields_falsy: "tree h v t lo hi \<Longrightarrow> \<not> truthy v \<Longrightarrow> strip_fields fs t = t"
  by (cases rule: tree.cases) auto

lemma makeBodyCompatible_tree:
  assumes t: "tree h v t lo hi" and hi: "hi \<le> next_free h" and d: "depth t < fuel"
  shows "\<exists>r h' lo' hi'. makeBodyCompatible fuel (Some v) ''v1'' h = Inr (Some r, h')
           \<and> tree h' r (strip_fields unsupportedFields t) lo' hi' \<and> hi' \<le> next_free h'
           \<and> tree h' v t lo hi \<and> next_free h \<le> next_free h'
           \<and> (\<forall>a < next_free h. cells h' a = cells h a)"
proof (cases "truthy v")
  case False
  then have "makeBodyCompatible fuel (Some v) ''v1'' h = Inr (Some v, h)"
    by (simp add: makeBodyCompatible_def)
  moreover have "tree h v (strip_fields unsupportedFields t) lo hi"
    using strip_fields_falsy[OF t False] t by simp
  ultimately show ?thesis using t hi by blast
next
  case True
  have s: "JSON_stringify fuel h v = Inr t" by (rule stringify_tree(1)[OF t d])
  obtain r h1 where p: "JSON_parse t h = (r, h1)" by (cases "JSON_parse t h")
  from parse_tree(1)[OF p] have t1: "tree h1 r t (next_free h) (next_free h1)"
    and le: "next_free h \<le> next_free h1" and old: "\<forall>a < next_free h. cells h1 a = cells h a"
    by auto
  from remove_tree[OF t1 d, of unsupportedFields] obtain h2
    where r: "removeUnsupportedFields fuel r unsupportedFields h1 = Inr h2"
    and t2: "tree h2 r (strip_fields unsupportedFields t) (next_free h) (next_free h1)"
    and f: "frame_out h1 h2 (next_free h) (next_free h1)" by blast
  have m: "makeBodyCompatible fuel (Some v) ''v1'' h = Inr (Some r, h2)"
    using True s p r by (simp add: makeBodyCompatible_def)
  have old2: "\<forall>a < next_free h. cells h2 a = cells h a"
    using old f by (simp add: frame_out_def)
  have "tree h2 v t lo hi"
    by (rule tree_frame(1)[OF t]) (use old2 hi in auto)
  moreover have "next_free h2 = next_free h1" using f by (simp add: frame_out_def)
  ultimately show ?thesis using m t2 le old2 by (intro exI[of _ r] exI[of _ h2] exI[of _ "next_free h"] exI[of _ "next_free h1"]) simp
qed

lemma example_body_facts:
  "depth example_body < 8"
  "strip_fields unsupportedFields example_body = example_body_stripped"
  by (simp_all add: example_body_def example_body_stripped_def unsupportedFields_def)

section \<open>Lemmas on feature detection\<close>

text \<open>
  Detection returns on every body stored by the parser that has no \<^verbatim>\<open>null\<close> among the
  elements of \<^verbatim>\<open>contents\<close> and of their \<^verbatim>\<open>parts\<close>.
\<close>

lemma any_param_none:
  "\<forall>p \<in> set ps. \<not> truthy_opt (map_of props p) \<Longrightarrow> cells h a = Obj props
     \<Longrightarrow> any_param h (VRef a) ps = Inr False"
  by (induction ps) auto

lemma members_map_of:
  "members h props ms lo hi \<Longrightarrow> map_of props k = Some v
     \<Longrightarrow> \<exists>t lo' hi'. map_of ms k = Some t \<and> tree h v t lo' hi'"
proof (induction props arbitrary: ms lo)
  case Nil
  then show ?case by simp
next
  case (Cons p props)
  from Cons.prems(1) obtain k' v' t' ms' mid where p: "p = (k', v')" and ms: "ms = (k', t') # ms'"
    and tv: "tree h v' t' lo mid" and tr: "members h props ms' mid hi"
    by (auto elim: members.cases)
  show ?case
  proof (cases "k' = k")
    case True
    then show ?thesis using Cons.prems(2) tv by (auto simp: p ms)
  next
    case False
    then have "map_of props k = Some v" using Cons.prems(2) by (simp add: p)
    from Cons.IH[OF tr this] show ?thesis using False by (simp add: ms)
  qed
qed

lemma trees_list_all2:
  "trees h vs ts lo hi \<Longrightarrow> list_all2 (\<lambda>v t. \<exists>lo' hi'. tree h v t lo' hi') vs ts"
proof (induction vs arbitrary: ts lo)
  case Nil
  then show ?case by (auto elim: trees.cases)
next
  case (Cons v vs)
  from Cons.prems obtain t ts' mid where "ts = t # ts'" "tree h v t lo mid" "trees h vs ts' mid hi"
    by (auto elim: trees.cases)
  then show ?case using Cons.IH by auto
qed

lemma tree_null_iff: "tree h v t lo hi \<Longrightarrow> v = VNull \<longleftrightarrow> t = JNull"
  by (cases rule: tree.cases) auto

lemma tree_arr_inv:
  "tree h (VRef a) t lo hi \<Longrightarrow> cells h a = Arr items \<Longrightarrow> \<exists>ts. t = JArr ts \<and> trees h items ts lo a"
  by (cases rule: tree.cases) auto

lemma tree_obj_inv:
  "tree h (VRef a) t lo hi \<Longrightarrow> cells h a = Obj props \<Longrightarrow> \<exists>ms. t = JObj ms \<and> members h props ms lo a"
  by (cases rule: tree.cases) auto

lemma get_prop_returns: "v \<noteq> VNull \<Longrightarrow> \<exists>x. get_prop h v k = Inr x"
  by (cases v) (auto split: cell.splits)

lemma any_param_returns: "v \<noteq> VNull \<Longrightarrow> \<exists>b. any_param h v ps = Inr b"
proof (induction ps)
  case Nil
  then show ?case by auto
next
  case (Cons p ps)
  from get_prop_returns[OF Cons.prems] obtain x where "get_prop h v p = Inr x" by blast
  then show ?case using Cons by auto
qed

lemma scan_parts_returns: "\<forall>v \<in> set vs. v \<noteq> VNull \<Longrightarrow> \<exists>b. scan_parts h vs = Inr b"
proof (induction vs)
  case Nil
  then show ?case by auto
next
  case (Cons v vs)
  from Cons.prems have "v \<noteq> VNull" by simp
  from any_param_returns[OF this] obtain b where "any_param h v unsupportedInV1 = Inr b" by blast
  then show ?case using Cons by auto
qed

lemma parts_not_null:
  assumes t: "tree h v c lo hi" and ok: "content_ok c"
    and g: "get_prop h v ''parts'' = Inr (Some (VRef p))" and arr: "cells h p = Arr items"
  shows "\<forall>x \<in> set items. x \<noteq> VNull"
proof -
  from g obtain d cprops where v: "v = VRef d" and d: "cells h d = Obj cprops"
    and m: "map_of cprops ''parts'' = Some (VRef p)"
    by (cases v) (auto split: cell.splits)
  from tree_obj_inv[OF t[unfolded v] d] obtain cms where c: "c = JObj cms"
    and mem: "members h cprops cms lo d" by blast
  from members_map_of[OF mem m] obtain tp lo' hi' where mp: "map_of cms ''parts'' = Some tp"
    and tp: "tree h (VRef p) tp lo' hi'" by blast
  from tree_arr_inv[OF tp arr] obtain ps where ps: "tp = JArr ps" and tr: "trees h items ps lo' p"
    by blast
  have nn: "JNull \<notin> set ps" using ok by (simp add: content_ok_def c mp ps)
  have "list_all2 (\<lambda>v t. \<exists>lo' hi'. tree h v t lo' hi') items ps" by (rule trees_list_all2[OF tr])
  then show ?thesis using nn
    by (induction rule: list_all2_induct) (auto dest: tree_null_iff)
qed

lemma scan_contents_returns:
  "list_all2 (\<lambda>v t. \<exists>lo' hi'. tree h v t lo' hi') vs cs \<Longrightarrow> list_all content_ok cs
     \<Longrightarrow> \<exists>b. scan_contents h vs = Inr b"
proof (induction rule: list_all2_induct)
  case Nil
  then show ?case by auto
next
  case (Cons v vs c cs)
  then obtain lo hi where t: "tree h v c lo hi" and ok: "content_ok c" by auto
  from ok have "c \<noteq> JNull" by (simp add: content_ok_def)
  then have "v \<noteq> VNull" using tree_null_iff[OF t] by simp
  from get_prop_returns[OF this] obtain parts where g: "get_prop h v ''parts'' = Inr parts" by blast
  have "\<exists>b. (if truthy_opt parts \<and> isArray h parts then scan_parts h (elements h parts)
              else Inr False) = Inr b"
  proof (cases "truthy_opt parts \<and> isArray h parts")
    case False
    then show ?thesis by auto
  next
    case True
    then obtain p items where p: "parts = Some (VRef p)" and arr: "cells h p = Arr items"
      by (cases "(h, parts)" rule: isArray.cases) (auto split: cell.splits)
    from parts_not_null[OF t ok g[unfolded p] arr] scan_parts_returns[of items h]
    show ?thesis using True by (simp add: p arr)
  qed
  then obtain b where "(if truthy_opt parts \<and> isArray h parts then scan_parts h (elements h parts)
              else Inr False) = Inr b" by blast
  then show ?case using g Cons by auto
qed

lemma needsVersionDowngrade_returns:
  assumes t: "tree h body t lo hi" and ok: "no_null_elements t"
  shows "\<exists>b. needsVersionDowngrade h (Some body) = Inr b"
proof (cases "\<not> truthy body \<or> \<not> typeof_object body")
  case True
  then show ?thesis by (auto simp: needsVersionDowngrade_def)
next
  case False
  then obtain a where a: "body = VRef a" by (cases body) auto
  have nn: "body \<noteq> VNull" using a by simp
  obtain found where f: "any_param h body unsupportedInV1 = Inr found"
    using any_param_returns[OF nn] by blast
  obtain contents where g: "get_prop h body ''contents'' = Inr contents"
    using get_prop_returns[OF nn] by blast
  have "\<exists>b. (if truthy_opt contents \<and> isArray h contents then scan_contents h (elements h contents)
              else Inr False) = Inr b"
  proof (cases "truthy_opt contents \<and> isArray h contents")
    case False
    then show ?thesis by auto
  next
    case True
    then obtain c items where c: "contents = Some (VRef c)" and arr: "cells h c = Arr items"
      by (cases "(h, contents)" rule: isArray.cases) (auto split: cell.splits)
    from g obtain props where pr: "cells h a = Obj props"
      and m: "map_of props ''contents'' = Some (VRef c)"
      by (auto simp: a c split: cell.splits)
    from tree_obj_inv[OF t[unfolded a] pr] obtain ms where ms: "t = JObj ms"
      and mem: "members h props ms lo a" by blast
    from members_map_of[OF mem m] obtain tc lo' hi' where mc: "map_of ms ''contents'' = Some tc"
      and tc: "tree h (VRef c) tc lo' hi'" by blast
    from tree_arr_inv[OF tc arr] obtain cs where cs: "tc = JArr cs" and tr: "trees h items cs lo' c"
      by blast
    have "list_all content_ok cs" using ok by (simp add: no_null_elements_def ms mc cs)
    from scan_contents_returns[OF trees_list_all2[OF tr] this]
    show ?thesis using True by (simp add: c arr)
  qed
  then show ?thesis using False f g by (auto simp: needsVersionDowngrade_def a)
qed

section \<open>Lemmas on the Bearer pattern and the handler\<close>

text \<open>
  The pattern matches \<^verbatim>\<open>Bearer\<close>, white space and a token: the group and the token are
  the same once trimmed, however the white space is shared out between them.
\<close>

lemma trim_all_space: "list_all js_space s \<Longrightarrow> trim s = []"
proof -
  assume "list_all js_space s"
  then have e: "dropWhile js_space s = []" by (simp only: dropWhile_eq_Nil_conv list_all_iff)
  show ?thesis unfolding trim_def e by simp
qed

lemma trim_dropWhile: "trim (dropWhile js_space s) = trim s"
  by (simp add: trim_def)

lemma bearer_match_token:
  assumes b: "map ascii_upper b = ''BEARER''" and ws: "ws \<noteq> []" "list_all js_space ws"
    and tok: "token \<noteq> []" "list_all (\<lambda>c. \<not> line_terminator c) token"
  shows "\<exists>g. bearer_match (b @ ws @ token) = Some g \<and> trim g = trim token"
proof -
  have lb: "length b = 6" using arg_cong[OF b, of length] by simp
  let ?r = "ws @ token"
  let ?W = "takeWhile js_space ?r"
  have W: "?W = ws @ takeWhile js_space token"
    using ws(2) by (simp add: takeWhile_append2 list_all_iff)
  have m: "bearer_match (b @ ws @ token) = spaces_then_group (length ?W) ?r"
    using b lb by (simp add: bearer_match_def)
  show ?thesis
  proof (cases "dropWhile js_space token = []")
    case False
    obtain k where k: "length ?W = Suc k" using ws(1) W by (cases "length ?W") auto
    have dr: "drop (Suc k) ?r = dropWhile js_space token"
    proof -
      have "drop (length ?W) ?r = dropWhile js_space ?r" by (rule dropWhile_eq_drop[symmetric])
      also have "\<dots> = dropWhile js_space token"
        using ws(2) by (simp add: dropWhile_append2 list_all_iff)
      finally show ?thesis by (simp add: k)
    qed
    have "list_all (\<lambda>c. \<not> line_terminator c) (dropWhile js_space token)"
      using tok(2) set_dropWhileD[of _ js_space token] by (auto simp: list_all_iff)
    then have "dot_plus_end (dropWhile js_space token)" using False by (simp add: dot_plus_end_def)
    then have "dot_plus_end (drop (Suc k) ?r)" by (simp only: dr)
    then have "spaces_then_group (Suc k) ?r = Some (drop (Suc k) ?r)"
      by (simp del: drop_append)
    then have "spaces_then_group (length ?W) ?r = Some (dropWhile js_space token)"
      by (simp only: k dr)
    then show ?thesis using m by (simp add: trim_dropWhile)
  next
    case True
    then have all: "list_all js_space token" by (simp only: list_all_iff dropWhile_eq_Nil_conv)
    then have Wr: "?W = ?r" using ws(2) by (simp add: list_all_iff)
    obtain k where k: "length ?r = Suc (Suc k)" using ws(1) tok(1)
      by (cases ws; cases token) auto
    have d0: "drop (Suc (Suc k)) ?r = []" using k by simp
    have d1: "drop (Suc k) ?r = [last token]"
    proof -
      have ne: "?r \<noteq> []" using tok(1) by simp
      have "butlast ?r @ [last ?r] = ?r" by (rule append_butlast_last_id[OF ne])
      moreover have "length (butlast ?r) = Suc k" using k by simp
      ultimately have "drop (Suc k) ?r = [last ?r]" by (metis append_eq_conv_conj)
      then show ?thesis using tok(1) by simp
    qed
    have "last token \<in> set token" using tok(1) by simp
    then have nl: "\<not> line_terminator (last token)" and sp: "js_space (last token)"
      using tok(2) all by (auto simp: list_all_iff)
    have "\<not> dot_plus_end (drop (Suc (Suc k)) ?r)" by (simp only: d0 dot_plus_end_def) simp
    moreover have "dot_plus_end (drop (Suc k) ?r)" using nl by (simp only: d1 dot_plus_end_def) simp
    ultimately have "spaces_then_group (Suc (Suc k)) ?r = Some (drop (Suc k) ?r)"
      by (simp del: drop_append)
    then have "spaces_then_group (length ?W) ?r = Some [last token]"
      by (simp only: Wr k d1)
    moreover have "trim [last token] = []" using sp by (simp add: trim_def)
    ultimately show ?thesis using m trim_all_space[OF all] by simp
  qed
qed

lemma startsWith_v1_path:
  assumes "startsWith path ''/v1/''"
  shows "versionMatch path = Some ''v1''" and "path \<noteq> ''/favicon.ico''"
    and "buildTargetPath path v = path"
  using assms by (auto simp: versionMatch_def startsWith_def buildTargetPath_def)

lemma qtruthy_Some: "qtruthy k \<Longrightarrow> \<exists>key. k = Some key"
  by (cases k) auto

section \<open>The compatibility transform\<close>

text \<open>
  C1. The body parser has stored the document \<open>t\<close> as \<open>body\<close> (heap \<open>h\<close>), and the call
  stack is deep enough for its nesting. Then \<^verbatim>\<open>makeBodyCompatible(body, 'v1')\<close> returns a
  value that reads as \<open>t\<close> without any member named \<^verbatim>\<open>systemInstruction\<close>, \<^verbatim>\<open>tool_config\<close> or
  \<^verbatim>\<open>tool_calls\<close>, in whatever object at whatever depth it stood, and with nothing else
  changed. The input is not mutated: \<open>body\<close> still reads as \<open>t\<close>, and no cell that
  existed before the call has changed.
\<close>

theorem makeBodyCompatible_v1_strips_copy:
  assumes "JSON_parse t h0 = (body, h)" and "depth t < fuel"
  shows "\<exists>newBody h'.
           makeBodyCompatible fuel (Some body) ''v1'' h = Inr (Some newBody, h')
         \<and> JSON_stringify fuel h' newBody = Inr (strip_fields unsupportedFields t)
         \<and> \<not> occurs ''systemInstruction'' (strip_fields unsupportedFields t)
         \<and> \<not> occurs ''tool_config'' (strip_fields unsupportedFields t)
         \<and> \<not> occurs ''tool_calls'' (strip_fields unsupportedFields t)
         \<and> JSON_stringify fuel h' body = Inr t
         \<and> (\<forall>a < next_free h. cells h' a = cells h a)"
proof -
  from parse_tree(1)[OF assms(1)] have t: "tree h body t (next_free h0) (next_free h)" by simp
  from makeBodyCompatible_tree[OF t order_refl assms(2)] obtain r h' lo' hi'
    where m: "makeBodyCompatible fuel (Some body) ''v1'' h = Inr (Some r, h')"
    and tr: "tree h' r (strip_fields unsupportedFields t) lo' hi'"
    and tb: "tree h' body t (next_free h0) (next_free h)"
    and old: "\<forall>a < next_free h. cells h' a = cells h a" by blast
  have "depth (strip_fields unsupportedFields t) < fuel"
    using depth_strip_fields(1)[of unsupportedFields t] assms(2) by simp
  from stringify_tree(1)[OF tr this] stringify_tree(1)[OF tb assms(2)] m old
  show ?thesis by (auto simp: occurs_strip_fields unsupportedFields_def)
qed

theorem makeBodyCompatible_v1_strips_copy_witness:
  "depth example_body < 8 \<and>
   (case JSON_parse example_body empty_heap of
      (body, h) \<Rightarrow>
        (\<exists>newBody h'.
            makeBodyCompatible 8 (Some body) ''v1'' h = Inr (Some newBody, h')
          \<and> JSON_stringify 8 h' newBody = Inr example_body_stripped
          \<and> \<not> occurs ''tool_calls'' example_body_stripped
          \<and> JSON_stringify 8 h' body = Inr example_body))"
proof -
  obtain body h where p: "JSON_parse example_body empty_heap = (body, h)"
    by (cases "JSON_parse example_body empty_heap")
  show ?thesis
    using makeBodyCompatible_v1_strips_copy[OF p example_body_facts(1)] example_body_facts(1)
    unfolding example_body_facts(2) p by auto
qed

text \<open>
  C8. Running the transform on its own result changes nothing: the second run returns
  a value that reads as the same document as the result of the first run (it is a fresh
  copy of it), and the result of the first run still reads the same afterwards.
\<close>

theorem makeBodyCompatible_v1_idempotent:
  assumes "JSON_parse t h0 = (body, h)" and "depth t < fuel"
  shows "\<exists>once h1 twice h2.
           makeBodyCompatible fuel (Some body) ''v1'' h = Inr (Some once, h1)
         \<and> makeBodyCompatible fuel (Some once) ''v1'' h1 = Inr (Some twice, h2)
         \<and> JSON_stringify fuel h2 twice = JSON_stringify fuel h1 once
         \<and> JSON_stringify fuel h1 once = Inr (strip_fields unsupportedFields t)
         \<and> JSON_stringify fuel h2 once = Inr (strip_fields unsupportedFields t)"
proof -
  let ?s = "strip_fields unsupportedFields t"
  from parse_tree(1)[OF assms(1)] have t: "tree h body t (next_free h0) (next_free h)" by simp
  from makeBodyCompatible_tree[OF t order_refl assms(2)] obtain r1 h1 lo1 hi1
    where m1: "makeBodyCompatible fuel (Some body) ''v1'' h = Inr (Some r1, h1)"
    and t1: "tree h1 r1 ?s lo1 hi1" and hi1: "hi1 \<le> next_free h1" by blast
  have d: "depth ?s < fuel"
    using depth_strip_fields(1)[of unsupportedFields t] assms(2) by simp
  from makeBodyCompatible_tree[OF t1 hi1 d] obtain r2 h2 lo2 hi2
    where m2: "makeBodyCompatible fuel (Some r1) ''v1'' h1 = Inr (Some r2, h2)"
    and t2: "tree h2 r2 (strip_fields unsupportedFields ?s) lo2 hi2"
    and t1': "tree h2 r1 ?s lo1 hi1" by blast
  from t2 have t2': "tree h2 r2 ?s lo2 hi2" by (simp add: strip_fields_idem)
  show ?thesis
    using m1 m2 stringify_tree(1)[OF t1 d] stringify_tree(1)[OF t2' d] stringify_tree(1)[OF t1' d]
    by simp
qed

theorem makeBodyCompatible_v1_idempotent_witness:
  "depth example_body < 8 \<and>
   (case JSON_parse example_body empty_heap of
      (body, h) \<Rightarrow>
        (\<exists>once h1 twice h2.
            makeBodyCompatible 8 (Some body) ''v1'' h = Inr (Some once, h1)
          \<and> makeBodyCompatible 8 (Some once) ''v1'' h1 = Inr (Some twice, h2)
          \<and> JSON_stringify 8 h1 once = Inr example_body_stripped
          \<and> JSON_stringify 8 h2 twice = Inr example_body_stripped))"
proof -
  obtain body h where p: "JSON_parse example_body empty_heap = (body, h)"
    by (cases "JSON_parse example_body empty_heap")
  show ?thesis
    using makeBodyCompatible_v1_idempotent[OF p example_body_facts(1)] example_body_facts(1)
    unfolding example_body_facts(2) p by auto
qed

section \<open>Feature detection on malformed bodies\<close>

text \<open>
  C2. The specification wants detection and stripping never to throw, a malformed shape
  counting as no feature found. Stripping never throws (\<open>remove_tree\<close>), and detection
  returns on every body without a \<^verbatim>\<open>null\<close> among the elements of \<^verbatim>\<open>contents\<close> and of their
  \<^verbatim>\<open>parts\<close> (\<open>needsVersionDowngrade_returns\<close>). But detection reads \<^verbatim>\<open>content.parts\<close> and
  \<^verbatim>\<open>part[param]\<close> without testing the element first: on a body object that has none of
  the three features at the top and whose \<^verbatim>\<open>contents\<close> array starts with \<^verbatim>\<open>null\<close>, or with an
  object whose \<^verbatim>\<open>parts\<close> array starts with \<^verbatim>\<open>null\<close>, it throws \<^verbatim>\<open>TypeError\<close>.
\<close>

theorem needsVersionDowngrade_null_element_throws:
  assumes "cells h a = Obj props"
    and "\<forall>p \<in> set unsupportedInV1. \<not> truthy_opt (map_of props p)"
    and "map_of props ''contents'' = Some (VRef c)"
    and "cells h c = Arr (content # rest)"
  shows "(content = VNull \<longrightarrow> needsVersionDowngrade h (Some (VRef a)) = Inl TypeError)
       \<and> (content = VRef d \<and> cells h d = Obj cprops \<and> map_of cprops ''parts'' = Some (VRef p)
            \<and> cells h p = Arr (VNull # parts)
          \<longrightarrow> needsVersionDowngrade h (Some (VRef a)) = Inl TypeError)"
  using assms any_param_none[OF assms(2) assms(1)]
  by (auto simp: needsVersionDowngrade_def unsupportedInV1_def)

theorem needsVersionDowngrade_null_element_throws_witness:
  "(case JSON_parse null_content_body empty_heap of
      (body, h) \<Rightarrow> needsVersionDowngrade h (Some body) = Inl TypeError)
   \<and> (case JSON_parse null_part_body empty_heap of
      (body, h) \<Rightarrow> needsVersionDowngrade h (Some body) = Inl TypeError)"
proof -
  define h1 where "h1 = snd (JSON_parse null_content_body empty_heap)"
  define h2 where "h2 = snd (JSON_parse null_part_body empty_heap)"
  have p1: "JSON_parse null_content_body empty_heap = (VRef 1, h1)"
    by (simp add: h1_def null_content_body_def alloc_def empty_heap_def)
  have c1: "cells h1 1 = Obj [(''contents'', VRef 0)]" "cells h1 0 = Arr [VNull]"
    by (simp_all add: h1_def null_content_body_def alloc_def empty_heap_def)
  have p2: "JSON_parse null_part_body empty_heap = (VRef 6, h2)"
    by (simp add: h2_def null_part_body_def alloc_def empty_heap_def)
  have c2: "cells h2 6 = Obj [(''contents'', VRef 5)]" "cells h2 5 = Arr [VRef 4]"
    "cells h2 4 = Obj [(''parts'', VRef 3)]" "cells h2 3 = Arr [VNull, VRef 0, VRef 2]"
    by (simp_all add: h2_def null_part_body_def alloc_def empty_heap_def)
  have "needsVersionDowngrade h1 (Some (VRef 1)) = Inl TypeError"
    using needsVersionDowngrade_null_element_throws[of h1 1 "[(''contents'', VRef 0)]" 0 VNull "[]"] c1
    by (simp add: unsupportedInV1_def)
  moreover have "needsVersionDowngrade h2 (Some (VRef 6)) = Inl TypeError"
    using needsVersionDowngrade_null_element_throws[of h2 6 "[(''contents'', VRef 5)]" 5 "VRef 4" "[]"
        4 "[(''parts'', VRef 3)]" 3 "[VRef 0, VRef 2]"] c2
    by (simp add: unsupportedInV1_def)
  ultimately show ?thesis by (simp add: p1 p2)
qed

section \<open>Version negotiation\<close>

text \<open>
  C3. A request that reaches version negotiation (it carries a key and does not ask for
  the debug route) and whose path starts with \<^verbatim>\<open>/v1/\<close> targets \<^verbatim>\<open>v1\<close> whatever its body holds;
  the path of the outbound call is the inbound path; the transform runs with target
  \<^verbatim>\<open>v1\<close>, and the body of the outbound call (sent for POST, PUT and PATCH) is the copy it
  returns, which reads as the inbound document without the restricted fields, so
  without \<^verbatim>\<open>tool_calls\<close>.
\<close>

theorem v1_path_wins_over_detection:
  assumes path: "startsWith (req_path req) ''/v1/''"
    and nodebug: "\<not> is_debug req" and key: "qtruthy (extractApiKey req)"
    and body: "req_body req = Some body"
    and parsed: "JSON_parse t h0 = (body, h)" and d: "depth t < fuel"
  shows "negotiateVersion h (req_path req) (req_body req) = Inr ''v1''
       \<and> (\<exists>out call newBody.
             handler e fuel req hdrs h = Inr out \<and> upstream_call out = Some call
           \<and> out_path call = req_path req
           \<and> makeBodyCompatible fuel (req_body req) ''v1'' h = Inr (Some newBody, heap_after out)
           \<and> out_data call =
               (if req_method req \<in> set [''POST'', ''PUT'', ''PATCH''] then Some newBody else None)
           \<and> JSON_stringify fuel (heap_after out) newBody = Inr (strip_fields unsupportedFields t)
           \<and> \<not> occurs ''tool_calls'' (strip_fields unsupportedFields t))"
proof -
  note p = startsWith_v1_path[OF path]
  have n: "negotiateVersion h (req_path req) (req_body req) = Inr ''v1''"
    by (simp add: negotiateVersion_def p(1))
  from parse_tree(1)[OF parsed] have t: "tree h body t (next_free h0) (next_free h)" by simp
  from makeBodyCompatible_tree[OF t order_refl d] obtain r h' lo' hi'
    where m: "makeBodyCompatible fuel (Some body) ''v1'' h = Inr (Some r, h')"
    and tr: "tree h' r (strip_fields unsupportedFields t) lo' hi'" by blast
  have "depth (strip_fields unsupportedFields t) < fuel"
    using depth_strip_fields(1)[of unsupportedFields t] d by simp
  from stringify_tree(1)[OF tr this]
  have s: "JSON_stringify fuel h' r = Inr (strip_fields unsupportedFields t)" .
  obtain k where k: "extractApiKey req = Some k" using qtruthy_Some[OF key] by blast
  have o: "\<not> occurs ''tool_calls'' (strip_fields unsupportedFields t)"
    by (rule occurs_strip_fields(1)) (simp add: unsupportedFields_def)
  show ?thesis
    using n m s o k key nodebug body p(2) p(3)
    by (simp add: handler_def Let_def)
qed

theorem v1_path_wins_over_detection_witness:
  "startsWith ''/v1/models'' ''/v1/'' \<and> depth example_body < 8 \<and> occurs ''tool_calls'' example_body \<and>
   (case JSON_parse example_body empty_heap of
      (body, h) \<Rightarrow>
        negotiateVersion h ''/v1/models'' (Some body) = Inr ''v1''
      \<and> (\<exists>out call newBody.
            handler example_env 8 (keyed_request ''POST'' ''/v1/models'' (Some body)) [] h = Inr out
          \<and> upstream_call out = Some call \<and> out_path call = ''/v1/models''
          \<and> out_data call = Some newBody
          \<and> JSON_stringify 8 (heap_after out) newBody = Inr example_body_stripped
          \<and> \<not> occurs ''tool_calls'' example_body_stripped))"
proof -
  obtain body h where p: "JSON_parse example_body empty_heap = (body, h)"
    by (cases "JSON_parse example_body empty_heap")
  let ?req = "keyed_request ''POST'' ''/v1/models'' (Some body)"
  have a: "startsWith (req_path ?req) ''/v1/''" "\<not> is_debug ?req" "qtruthy (extractApiKey ?req)"
    "req_body ?req = Some body"
    by (simp_all add: keyed_request_def startsWith_def is_debug_def extractApiKey_def)
  have o: "occurs ''tool_calls'' example_body" by (simp add: example_body_def)
  show ?thesis
    using v1_path_wins_over_detection[OF a p example_body_facts(1), of example_env "[]"]
      example_body_facts(1) o
    unfolding example_body_facts(2) p
    by (auto simp: keyed_request_def startsWith_def)
qed

text \<open>
  C4. The specification wants \<^verbatim>\<open>v1beta\<close> selected for every body with \<^verbatim>\<open>tool_calls\<close> nested
  inside \<^verbatim>\<open>contents[0].parts[2]\<close> when the path has no version prefix. Where detection
  returns, \<^verbatim>\<open>v1beta\<close> is selected, being the default. But when the first of the three
  parts is \<^verbatim>\<open>null\<close>, detection throws before it reaches the third part, whatever that
  part holds: no version is selected and the handler ends with \<^verbatim>\<open>TypeError\<close>.
\<close>

theorem negotiation_throws_on_null_part:
  assumes "versionMatch (req_path req) = None"
    and "req_path req \<noteq> ''/favicon.ico''" and "\<not> is_debug req" and "qtruthy (extractApiKey req)"
    and "req_body req = Some (VRef a)" and "cells h a = Obj props"
    and "\<forall>p \<in> set unsupportedInV1. \<not> truthy_opt (map_of props p)"
    and "map_of props ''contents'' = Some (VRef c)"
    and "cells h c = Arr (VRef d # rest)"
    and "cells h d = Obj cprops" and "map_of cprops ''parts'' = Some (VRef p)"
    and "cells h p = Arr [VNull, part1, part2]"
  shows "negotiateVersion h (req_path req) (req_body req) = Inl TypeError
       \<and> handler e fuel req hdrs h = Inl TypeError"
proof -
  have "needsVersionDowngrade h (Some (VRef a)) = Inl TypeError"
    using assms any_param_none[OF assms(7) assms(6)]
    by (auto simp: needsVersionDowngrade_def unsupportedInV1_def)
  then have n: "negotiateVersion h (req_path req) (req_body req) = Inl TypeError"
    using assms(1,5) by (simp add: negotiateVersion_def)
  obtain k where "extractApiKey req = Some k" using qtruthy_Some assms(4) by blast
  then show ?thesis using n assms(2,3,4) by (simp add: handler_def Let_def)
qed

theorem negotiation_throws_on_null_part_witness:
  "versionMatch ''/models/gemini:generateContent'' = None
   \<and> occurs ''tool_calls'' null_part_body
   \<and> (case JSON_parse null_part_body empty_heap of
        (body, h) \<Rightarrow>
          negotiateVersion h ''/models/gemini:generateContent'' (Some body) = Inl TypeError
        \<and> handler example_env 8 (keyed_request ''POST'' ''/models/gemini:generateContent'' (Some body)) [] h
            = Inl TypeError)"
proof -
  define h2 where "h2 = snd (JSON_parse null_part_body empty_heap)"
  have p2: "JSON_parse null_part_body empty_heap = (VRef 6, h2)"
    by (simp add: h2_def null_part_body_def alloc_def empty_heap_def)
  have c2: "cells h2 6 = Obj [(''contents'', VRef 5)]" "cells h2 5 = Arr [VRef 4]"
    "cells h2 4 = Obj [(''parts'', VRef 3)]" "cells h2 3 = Arr [VNull, VRef 0, VRef 2]"
    by (simp_all add: h2_def null_part_body_def alloc_def empty_heap_def)
  let ?req = "keyed_request ''POST'' ''/models/gemini:generateContent'' (Some (VRef 6))"
  have a: "versionMatch (req_path ?req) = None" "req_path ?req \<noteq> ''/favicon.ico''"
    "\<not> is_debug ?req" "qtruthy (extractApiKey ?req)" "req_body ?req = Some (VRef 6)"
    by (simp_all add: keyed_request_def versionMatch_def startsWith_def is_debug_def
        extractApiKey_def)
  have u: "\<forall>p \<in> set unsupportedInV1. \<not> truthy_opt (map_of [(''contents'', VRef 5)] p)"
    by (simp add: unsupportedInV1_def)
  have m: "map_of [(''contents'', VRef 5)] ''contents'' = Some (VRef 5)"
    "map_of [(''parts'', VRef 3)] ''parts'' = Some (VRef 3)" by simp_all
  have o: "occurs ''tool_calls'' null_part_body" by (simp add: null_part_body_def)
  show ?thesis
    using negotiation_throws_on_null_part[OF a c2(1) u m(1) c2(2) c2(3) m(2) c2(4),
        of example_env 8 "[]"] a(1) o
    by (simp add: p2 keyed_request_def)
qed

section \<open>Credential extraction from the Authorization header\<close>

text \<open>
  C5, as the code has it. With no vendor key header and an \<^verbatim>\<open>Authorization\<close> value \<open>auth\<close>:
  \<^item> when \<open>auth\<close> is \<^verbatim>\<open>Bearer\<close> in any letter case, then white space, then a non-empty
    token free of line terminators, the key is the token trimmed;
  \<^item> when \<open>auth\<close> is non-empty, does not match the Bearer pattern and holds no space
    character, the key is \<open>auth\<close> trimmed;
  \<^item> when \<open>auth\<close> holds a space, does not match the Bearer pattern, and no key-carrying
    query parameter has a non-empty value, there is no key.
\<close>

theorem extractApiKey_authorization:
  assumes "map_of (req_headers req) ''x-goog-api-key'' = None"
    and "map_of (req_headers req) ''authorization'' = Some auth"
  shows "(auth = b @ ws @ token \<and> map ascii_upper b = ''BEARER'' \<and> ws \<noteq> [] \<and> list_all js_space ws
            \<and> token \<noteq> [] \<and> list_all (\<lambda>c. \<not> line_terminator c) token
          \<longrightarrow> extractApiKey req = Some (QStr (trim token)))
       \<and> (auth \<noteq> [] \<and> bearer_match auth = None \<and> CHR '' '' \<notin> set auth
          \<longrightarrow> extractApiKey req = Some (QStr (trim auth)))
       \<and> (CHR '' '' \<in> set auth \<and> bearer_match auth = None
            \<and> (\<forall>k \<in> set queryKeys. \<not> qtruthy (map_of (req_query req) k))
          \<longrightarrow> extractApiKey req = None)"
proof (intro conjI impI)
  assume a: "auth = b @ ws @ token \<and> map ascii_upper b = ''BEARER'' \<and> ws \<noteq> [] \<and> list_all js_space ws
            \<and> token \<noteq> [] \<and> list_all (\<lambda>c. \<not> line_terminator c) token"
  then obtain g where "bearer_match auth = Some g" "trim g = trim token"
    using bearer_match_token[of b ws token] by auto
  moreover have "auth \<noteq> []" using a by auto
  ultimately show "extractApiKey req = Some (QStr (trim token))"
    using assms by (simp add: extractApiKey_def authorization_key_def)
next
  assume "auth \<noteq> [] \<and> bearer_match auth = None \<and> CHR '' '' \<notin> set auth"
  then show "extractApiKey req = Some (QStr (trim auth))"
    using assms by (simp add: extractApiKey_def authorization_key_def)
next
  assume a: "CHR '' '' \<in> set auth \<and> bearer_match auth = None
            \<and> (\<forall>k \<in> set queryKeys. \<not> qtruthy (map_of (req_query req) k))"
  then have "auth \<noteq> []" by auto
  moreover have "query_key queryKeys (req_query req) = None"
    using a by (simp add: queryKeys_def)
  ultimately show "extractApiKey req = None"
    using assms a by (simp add: extractApiKey_def authorization_key_def)
qed

theorem extractApiKey_authorization_witness:
  "extractApiKey (authorization_request ''bEARER   abc 123  '' []) = Some (QStr ''abc 123'')
   \<and> bearer_match ''abc123'' = None \<and> CHR '' '' \<notin> set ''abc123''
   \<and> extractApiKey (authorization_request ''abc123'' []) = Some (QStr ''abc123'')
   \<and> bearer_match ''Basic dXNlcg=='' = None \<and> CHR '' '' \<in> set ''Basic dXNlcg==''
   \<and> extractApiKey (authorization_request ''Basic dXNlcg=='' []) = None"
proof -
  have e: "bearer_match ''abc123'' = None" "bearer_match ''Basic dXNlcg=='' = None"
    by (simp_all add: bearer_match_def ascii_upper_def)
  have t: "trim ''abc 123  '' = ''abc 123''" "trim ''abc123'' = ''abc123''"
    by (simp_all add: trim_def js_space_def)
  have 1: "extractApiKey (authorization_request ''bEARER   abc 123  '' []) = Some (QStr ''abc 123'')"
    using extractApiKey_authorization[of "authorization_request ''bEARER   abc 123  '' []"
        "''bEARER   abc 123  ''" "''bEARER''" "''   ''" "''abc 123  ''"] t
    by (simp add: authorization_request_def ascii_upper_def js_space_def line_terminator_def
        e queryKeys_def)
  have 2: "extractApiKey (authorization_request ''abc123'' []) = Some (QStr ''abc123'')"
    using extractApiKey_authorization[of "authorization_request ''abc123'' []" "''abc123''"
        "[]" "[]" "[]"] t e
    by (simp add: authorization_request_def)
  have 3: "extractApiKey (authorization_request ''Basic dXNlcg=='' []) = None"
    using extractApiKey_authorization[of "authorization_request ''Basic dXNlcg=='' []"
        "''Basic dXNlcg==''" "[]" "[]" "[]"] e
    by (simp add: authorization_request_def queryKeys_def)
  show ?thesis using 1 2 3 e by simp
qed

text \<open>
  The second case does not hold for every value without a space character: a tab after
  \<^verbatim>\<open>Bearer\<close> matches the pattern, which is tried first, and an empty value is skipped.
\<close>

theorem extractApiKey_tab_counterexample:
  "CHR '' '' \<notin> set (''Bearer'' @ [CHR 0x09] @ ''abc'')
   \<and> extractApiKey (authorization_request (''Bearer'' @ [CHR 0x09] @ ''abc'') []) = Some (QStr ''abc'')
   \<and> trim (''Bearer'' @ [CHR 0x09] @ ''abc'') \<noteq> ''abc''
   \<and> CHR '' '' \<notin> set ''''
   \<and> extractApiKey (authorization_request '''' [(''key'', QStr ''K'')]) = Some (QStr ''K'')
   \<and> trim '''' \<noteq> ''K''"
  by (simp add: authorization_request_def extractApiKey_def authorization_key_def bearer_match_def
      ascii_upper_def js_space_def dot_plus_end_def line_terminator_def trim_def queryKeys_def)

section \<open>Responses of the handler\<close>

text \<open>
  C6, as the code has it. A request from which no key is resolved never causes an
  outbound call; unless it is the favicon request or asks for the debug route, which
  are answered before the key is looked at, it is answered with status 401 and the body
  \<^verbatim>\<open>{error: {code: 401, message: "API key not found", status: "UNAUTHENTICATED"}}\<close>.
\<close>

theorem no_key_unauthenticated:
  assumes "\<not> qtruthy (extractApiKey req)"
  shows "\<exists>out. handler e fuel req hdrs h = Inr out \<and> upstream_call out = None \<and> heap_after out = h
           \<and> (req_path req \<noteq> ''/favicon.ico'' \<and> \<not> is_debug req \<longrightarrow>
                statusCode (response out) = 401
              \<and> res_payload (response out) =
                  Json (JObj [(''error'', JObj [(''code'', JNum 401),
                                                (''message'', JStr ''API key not found''),
                                                (''status'', JStr ''UNAUTHENTICATED'')])]))"
  using assms
  by (simp add: handler_def Let_def res_json_def res_setHeader_def res_status_def new_res_def
      unauthenticated_json_def)

theorem no_key_unauthenticated_witness:
  "\<not> qtruthy (extractApiKey anonymous_request)
   \<and> req_path anonymous_request \<noteq> ''/favicon.ico'' \<and> \<not> is_debug anonymous_request
   \<and> (\<exists>out. handler example_env 1 anonymous_request [] empty_heap = Inr out
         \<and> upstream_call out = None
         \<and> statusCode (response out) = 401
         \<and> res_payload (response out) =
             Json (JObj [(''error'', JObj [(''code'', JNum 401),
                                           (''message'', JStr ''API key not found''),
                                           (''status'', JStr ''UNAUTHENTICATED'')])]))"
proof -
  have a: "\<not> qtruthy (extractApiKey anonymous_request)"
    by (simp add: anonymous_request_def extractApiKey_def queryKeys_def)
  have b: "req_path anonymous_request \<noteq> ''/favicon.ico''" "\<not> is_debug anonymous_request"
    by (simp_all add: anonymous_request_def is_debug_def)
  show ?thesis
    using no_key_unauthenticated[OF a, of example_env 1 "[]" empty_heap] a b by auto
qed

text \<open>A request for the debug route without a key is not answered with 401.\<close>

theorem no_key_debug_counterexample:
  "\<not> qtruthy (extractApiKey debug_request)
   \<and> (\<exists>out. handler example_env 1 debug_request [] empty_heap = Inr out
         \<and> statusCode (response out) = 200
         \<and> res_payload (response out) \<noteq> Json unauthenticated_json)"
  by (simp add: debug_request_def extractApiKey_def queryKeys_def handler_def Let_def is_debug_def
      res_json_def res_setHeader_def new_res_def debug_json_def unauthenticated_json_def)

text \<open>
  C7. When the outbound call of a request fails with a connection error, the caller
  receives status 502 and the body
  \<^verbatim>\<open>{error: {code: 502, message: "Failed to connect to Google Gemini API: <reason>", status: "BAD_GATEWAY"}}\<close>.
  The \<^verbatim>\<open>catch\<close> block sends this response when no header has been sent yet, and leaves
  the response as it is when headers have been sent.
\<close>

theorem connection_failure_bad_gateway:
  "(handler e fuel req hdrs h = Inr out \<and> upstream_call out = Some call
      \<and> axios e call = Fails reason
    \<longrightarrow> statusCode (response out) = 502
      \<and> res_payload (response out) =
          Json (JObj [(''error'', JObj [(''code'', JNum 502),
                        (''message'', JStr (''Failed to connect to Google Gemini API: '' @ reason)),
                        (''status'', JStr ''BAD_GATEWAY'')])]))
   \<and> (\<not> headersSent r \<longrightarrow>
        catch_block reason r = res_json (bad_gateway_json reason) (res_status 502 r))
   \<and> (headersSent r \<longrightarrow> catch_block reason r = r)"
proof -
  have failed: "statusCode (response out) = 502
      \<and> res_payload (response out) =
          Json (JObj [(''error'', JObj [(''code'', JNum 502),
                        (''message'', JStr (''Failed to connect to Google Gemini API: '' @ reason)),
                        (''status'', JStr ''BAD_GATEWAY'')])])"
    if a: "handler e fuel req hdrs h = Inr out \<and> upstream_call out = Some call
      \<and> axios e call = Fails reason"
  proof -
    from a have "response out = catch_block reason (new_res hdrs)"
      by (auto simp: handler_def Let_def split: if_splits option.splits sum.splits prod.splits)
    then show ?thesis
      by (simp add: catch_block_def new_res_def res_json_def res_status_def res_setHeader_def
          bad_gateway_json_def)
  qed
  have unsent: "catch_block reason r = res_json (bad_gateway_json reason) (res_status 502 r)"
    if "\<not> headersSent r"
    using that by (simp add: catch_block_def)
  have sent: "catch_block reason r = r" if "headersSent r"
    using that by (simp add: catch_block_def)
  show ?thesis using failed unsent sent by blast
qed

theorem connection_failure_bad_gateway_witness:
  "(\<exists>out call.
       handler example_env 1 (keyed_request ''GET'' ''/models'' None) [] empty_heap = Inr out
     \<and> upstream_call out = Some call
     \<and> axios example_env call = Fails ''connect ECONNREFUSED''
     \<and> statusCode (response out) = 502
     \<and> res_payload (response out) =
         Json (JObj [(''error'', JObj [(''code'', JNum 502),
                       (''message'', JStr ''Failed to connect to Google Gemini API: connect ECONNREFUSED''),
                       (''status'', JStr ''BAD_GATEWAY'')])]))
   \<and> headersSent (res_pipe ''data: '' (new_res []))
   \<and> catch_block ''connect ECONNREFUSED'' (res_pipe ''data: '' (new_res []))
       = res_pipe ''data: '' (new_res [])"
proof -
  obtain out call
    where a: "handler example_env 1 (keyed_request ''GET'' ''/models'' None) [] empty_heap = Inr out
              \<and> upstream_call out = Some call
              \<and> axios example_env call = Fails ''connect ECONNREFUSED''"
    by (simp add: handler_def Let_def keyed_request_def is_debug_def extractApiKey_def
        negotiateVersion_def versionMatch_def startsWith_def needsVersionDowngrade_def
        makeBodyCompatible_def example_env_def DEFAULT_API_VERSION_def)
  have s: "headersSent (res_pipe ''data: '' (new_res []))" by (simp add: res_pipe_def)
  show ?thesis
    using connection_failure_bad_gateway[of example_env 1 "keyed_request ''GET'' ''/models'' None"
        "[]" empty_heap out call "''connect ECONNREFUSED''" "res_pipe ''data: '' (new_res [])"] a s
    by auto
qed

text \<open>
  C9. The debug route is checked before the key: a request other than the favicon
  request with the query parameter \<^verbatim>\<open>debug=true\<close> or the header \<^verbatim>\<open>http-debug: true\<close> is
  answered with the debug document, whose \<^verbatim>\<open>api_key_found\<close> says whether a key was
  resolved (so \<^verbatim>\<open>false\<close> without a key), with status 200 and never with the 401 response,
  and no outbound call is made.
\<close>

theorem debug_checked_before_authentication:
  assumes "req_path req \<noteq> ''/favicon.ico''"
    and "map_of (req_query req) ''debug'' = Some (QStr ''true'')
         \<or> map_of (req_headers req) ''http-debug'' = Some ''true''"
  shows "\<exists>out. handler e fuel req hdrs h = Inr out
           \<and> response out =
               res_json (JObj [(''debug'', JBool True), (''method'', JStr (req_method req)),
                               (''path'', JStr (req_path req)),
                               (''api_key_found'', JBool (qtruthy (extractApiKey req))),
                               (''server_info'', server_info e)]) (new_res hdrs)
           \<and> statusCode (response out) = 200
           \<and> res_payload (response out) \<noteq> Json unauthenticated_json
           \<and> upstream_call out = None"
  using assms
  by (simp add: handler_def Let_def is_debug_def debug_json_def res_json_def res_setHeader_def
      new_res_def unauthenticated_json_def)

theorem debug_checked_before_authentication_witness:
  "req_path debug_request \<noteq> ''/favicon.ico''
   \<and> map_of (req_query debug_request) ''debug'' = Some (QStr ''true'')
   \<and> \<not> qtruthy (extractApiKey debug_request)
   \<and> (\<exists>out. handler example_env 1 debug_request [] empty_heap = Inr out
         \<and> res_payload (response out) =
             Json (JObj [(''debug'', JBool True), (''method'', JStr ''GET''), (''path'', JStr ''/models''),
                         (''api_key_found'', JBool False),
                         (''server_info'', JObj [(''platform'', JStr ''linux'')])])
         \<and> statusCode (response out) = 200
         \<and> upstream_call out = None)"
proof -
  have a: "req_path debug_request \<noteq> ''/favicon.ico''"
    "map_of (req_query debug_request) ''debug'' = Some (QStr ''true'')
     \<or> map_of (req_headers debug_request) ''http-debug'' = Some ''true''"
    by (simp_all add: debug_request_def)
  have k: "extractApiKey debug_request = None"
    by (simp add: debug_request_def extractApiKey_def queryKeys_def)
  show ?thesis
    using debug_checked_before_authentication[OF a, of example_env 1 "[]" empty_heap] k
    by (auto simp: debug_request_def example_env_def res_json_def res_setHeader_def)
qed

text \<open>
  C10, as the code has it. For a request whose path does not start with \<^verbatim>\<open>/v1/\<close> and
  whose body, if it has one, holds no \<^verbatim>\<open>null\<close> among the elements of \<^verbatim>\<open>contents\<close> and of their
  \<^verbatim>\<open>parts\<close>: the negotiated version is \<^verbatim>\<open>v1beta\<close> whatever else the body holds; the transform
  returns the inbound body itself and changes nothing in the heap; and when the request
  reaches the relay, the outbound call carries that body for POST, PUT and PATCH, and no
  body for every other method.
\<close>

theorem other_paths_body_unchanged:
  assumes "\<not> startsWith (req_path req) ''/v1/''"
    and "req_body req = None
         \<or> (\<exists>body t h0. req_body req = Some body \<and> JSON_parse t h0 = (body, h)
                \<and> no_null_elements t)"
  shows "negotiateVersion h (req_path req) (req_body req) = Inr ''v1beta''
       \<and> makeBodyCompatible fuel (req_body req) ''v1beta'' h = Inr (req_body req, h)
       \<and> (req_path req \<noteq> ''/favicon.ico'' \<and> \<not> is_debug req \<and> qtruthy (extractApiKey req) \<longrightarrow>
            (\<exists>out call. handler e fuel req hdrs h = Inr out \<and> upstream_call out = Some call
               \<and> heap_after out = h
               \<and> out_data call =
                   (if req_method req \<in> set [''POST'', ''PUT'', ''PATCH''] then req_body req else None)))"
proof -
  have "\<exists>b. needsVersionDowngrade h (req_body req) = Inr b"
  proof (cases "req_body req")
    case None
    then show ?thesis by (auto simp: needsVersionDowngrade_def)
  next
    case (Some b)
    with assms(2) obtain t h0 where p: "JSON_parse t h0 = (b, h)" and ok: "no_null_elements t"
      by auto
    from parse_tree(1)[OF p] have "tree h b t (next_free h0) (next_free h)" by simp
    from needsVersionDowngrade_returns[OF this ok] show ?thesis by (simp add: Some)
  qed
  then have n: "negotiateVersion h (req_path req) (req_body req) = Inr ''v1beta''"
    using assms(1)
    by (auto simp: negotiateVersion_def versionMatch_def DEFAULT_API_VERSION_def)
  have m: "makeBodyCompatible fuel (req_body req) ''v1beta'' h = Inr (req_body req, h)"
    by (simp add: makeBodyCompatible_def split: option.splits)
  have "\<exists>out call. handler e fuel req hdrs h = Inr out \<and> upstream_call out = Some call
               \<and> heap_after out = h
               \<and> out_data call =
                   (if req_method req \<in> set [''POST'', ''PUT'', ''PATCH''] then req_body req else None)"
    if r: "req_path req \<noteq> ''/favicon.ico'' \<and> \<not> is_debug req \<and> qtruthy (extractApiKey req)"
  proof -
    obtain k where k: "extractApiKey req = Some k" using qtruthy_Some r by blast
    show ?thesis using r k m n by (simp add: handler_def Let_def)
  qed
  then show ?thesis using n m by blast
qed

theorem other_paths_body_unchanged_witness:
  "\<not> startsWith ''/models/gemini:generateContent'' ''/v1/'' \<and> no_null_elements example_body \<and>
   (case JSON_parse example_body empty_heap of
      (body, h) \<Rightarrow>
        negotiateVersion h ''/models/gemini:generateContent'' (Some body) = Inr ''v1beta''
      \<and> makeBodyCompatible 8 (Some body) ''v1beta'' h = Inr (Some body, h)
      \<and> (\<exists>out call.
            handler example_env 8 (keyed_request ''POST'' ''/models/gemini:generateContent'' (Some body)) [] h
              = Inr out
          \<and> upstream_call out = Some call \<and> heap_after out = h
          \<and> out_data call = Some body))"
proof -
  obtain body h where p: "JSON_parse example_body empty_heap = (body, h)"
    by (cases "JSON_parse example_body empty_heap")
  let ?req = "keyed_request ''POST'' ''/models/gemini:generateContent'' (Some body)"
  have a: "\<not> startsWith (req_path ?req) ''/v1/''"
    by (simp add: keyed_request_def startsWith_def)
  have ok: "no_null_elements example_body"
    by (simp add: no_null_elements_def content_ok_def example_body_def)
  have b: "req_body ?req = None
         \<or> (\<exists>body' t h0. req_body ?req = Some body' \<and> JSON_parse t h0 = (body', h)
                \<and> no_null_elements t)"
    using p ok by (auto simp: keyed_request_def)
  have r: "req_path ?req \<noteq> ''/favicon.ico'' \<and> \<not> is_debug ?req \<and> qtruthy (extractApiKey ?req)"
    by (simp add: keyed_request_def is_debug_def extractApiKey_def)
  show ?thesis
    using other_paths_body_unchanged[OF a b, of 8 example_env "[]"] r a ok
    unfolding p by (auto simp: keyed_request_def)
qed

text \<open>
  The outbound body is not the inbound body for every such request: a GET request
  with a body is forwarded without one.
\<close>

theorem get_with_body_counterexample:
  "case JSON_parse (JObj [(''a'', JNum 1)]) empty_heap of
     (body, h) \<Rightarrow>
       \<not> startsWith ''/models'' ''/v1/'' \<and> \<not> startsWith ''/models'' ''/v1beta/''
     \<and> (\<exists>out call.
           handler example_env 2 (keyed_request ''GET'' ''/models'' (Some body)) [] h = Inr out
         \<and> upstream_call out = Some call
         \<and> req_body (keyed_request ''GET'' ''/models'' (Some body)) = Some body
         \<and> out_data call = None)"
  by (simp add: handler_def Let_def keyed_request_def is_debug_def extractApiKey_def
      negotiateVersion_def versionMatch_def startsWith_def needsVersionDowngrade_def
      makeBodyCompatible_def example_env_def DEFAULT_API_VERSION_def alloc_def empty_heap_def
      unsupportedInV1_def)

end
